theory Spec2Isabelle
  imports
    Main
    "HOL-Library.Word"
    "HOL-Library.Char_ord"
    "HOL-Library.List_Lexorder"
begin

unbundle bit_operations_syntax

section \<open>The chunked compressor of \<^verbatim>\<open>src/discord_compressor.cpp\<close>\<close>

text \<open>
  The program splits a file into chunks, compresses every chunk with zlib on a thread
  pool, and writes one chunk record per chunk; the reverse pipeline lists a directory,
  loads the records, decompresses and verifies them on a thread pool and writes the
  reassembled file.

  Conventions of the embedding:
  \<^item> a byte is an \<open>8 word\<close>; \<^verbatim>\<open>uint32_t\<close> and \<^verbatim>\<open>uint64_t\<close> header fields are
    \<open>32 word\<close> and \<open>64 word\<close>; \<^verbatim>\<open>size_t\<close> values are natural numbers, with the
    arithmetic of the source written modulo \<open>2 ^ 64\<close> where the source computes;
  \<^item> the packed header is written and read through \<^verbatim>\<open>reinterpret_cast\<close>, so its
    bytes are the host's: the embedding fixes a little-endian host;
  \<^item> zlib (\<^verbatim>\<open>compress2\<close>, \<^verbatim>\<open>uncompress\<close>, \<^verbatim>\<open>crc32\<close>),
    \<^verbatim>\<open>std::thread::hardware_concurrency\<close> and the success of opening a file for
    writing are not code of the program: they are the fields of a \<open>platform\<close> record
    that every function takes;
  \<^item> an exception that reaches \<^verbatim>\<open>main\<close> is \<open>Error e\<close>; an exception thrown by a pool
    task leaves the thread function, so the process ends in \<^verbatim>\<open>std::terminate\<close>:
    \<open>Terminated e\<close>; a use of the language that C++ leaves undefined (an index past the
    end of a vector, a header field that no read has filled, a division by zero) is
    \<open>Undefined u\<close>; a loop that cannot end is \<open>Diverges\<close>;
  \<^item> both pipelines destroy their thread pool by hand and leave it to be destroyed again
    at the end of its scope, which C++ leaves undefined: a call that passes the barrier
    ends in \<open>Undefined (PoolDestroyedTwice x)\<close>, \<open>x\<close> being the exception that was leaving
    the function, if any; the files written before that are on disk;
  \<^item> a path is its spelling: \<^verbatim>\<open>out\<close> and \<^verbatim>\<open>out/\<close> are different paths, and the paths
    of the embedding carry no trailing separator;
  \<^item> memory is unbounded: no allocation fails.
\<close>

subsection \<open>Constants\<close>

type_synonym byte = "8 word"

definition DISCORD_MAX_SIZE :: nat where
  "DISCORD_MAX_SIZE = 25 * 1024 * 1024"

definition CHUNK_SIZE :: nat where
  "CHUNK_SIZE = 20 * 1024 * 1024"

definition BUFFER_SIZE :: nat where
  "BUFFER_SIZE = 1024 * 1024"

definition COMPRESSION_LEVEL :: int where
  "COMPRESSION_LEVEL = 6"

text \<open>\<^verbatim>\<open>size_t\<close> arithmetic (64 bits) on natural numbers.\<close>

definition size_add :: "nat \<Rightarrow> nat \<Rightarrow> nat" where
  "size_add a b = (a + b) mod 2 ^ 64"

definition size_sub :: "nat \<Rightarrow> nat \<Rightarrow> nat" where
  "size_sub a b = (a mod 2 ^ 64 + 2 ^ 64 - b mod 2 ^ 64) mod 2 ^ 64"

definition size_mul :: "nat \<Rightarrow> nat \<Rightarrow> nat" where
  "size_mul a b = (a * b) mod 2 ^ 64"

subsection \<open>Outcomes\<close>

datatype exn =
    InputMissing              \<comment> \<open>"Input file does not exist"\<close>
  | CannotOpenInput           \<comment> \<open>"Cannot open input file"\<close>
  | CompressionFailed         \<comment> \<open>"Compression failed"\<close>
  | DecompressionFailed       \<comment> \<open>"Decompression failed"\<close>
  | ChunkProcessingFailed     \<comment> \<open>"Chunk processing failed"\<close>
  | CannotCreateChunk         \<comment> \<open>"Cannot create output chunk file"\<close>
  | DirectoryError            \<comment> \<open>\<^verbatim>\<open>fs::directory_iterator\<close> on a missing directory\<close>
  | NoChunkFiles              \<comment> \<open>"No chunk files found in directory"\<close>
  | InvalidFormat             \<comment> \<open>"Invalid chunk file format"\<close>
  | CannotOpenChunk string    \<comment> \<open>"Cannot open chunk file: " + path\<close>
  | CrcMismatch nat           \<comment> \<open>"CRC32 checksum mismatch for chunk " + to_string(i)\<close>
  | ChunkDecompressionFailed  \<comment> \<open>"Chunk decompression failed"\<close>
  | CannotCreateOutput        \<comment> \<open>"Cannot create output file"\<close>

datatype undefined_use =
    DivisionByZero
  | FileIndexOutOfRange nat     \<comment> \<open>\<^verbatim>\<open>chunk_files[i]\<close> with \<open>i \<ge> chunk_files.size()\<close>\<close>
  | SlotIndexOutOfRange nat     \<comment> \<open>\<^verbatim>\<open>chunks[k]\<close> with \<open>k \<ge> chunks.size()\<close>\<close>
  | IndeterminateHeader         \<comment> \<open>a header field is used that no read has filled\<close>
  | PoolDestroyedTwice "exn option"
      \<comment> \<open>\<^verbatim>\<open>~ThreadPool\<close> runs on the pool that \<^verbatim>\<open>pool.~ThreadPool()\<close> has destroyed;
          the exception that was leaving the scope, if any\<close>

datatype error =
    Error exn
  | Terminated exn
  | Undefined undefined_use
  | Diverges
  | DirectoryAsInput          \<comment> \<open>the input path names a directory: what its stream gives is the platform's\<close>

subsection \<open>The platform\<close>

text \<open>
  \<open>zlib_compress2 x\<close> is the stream \<^verbatim>\<open>compress2\<close> produces for \<open>x\<close> at level 6 into a
  buffer of \<^verbatim>\<open>compressBound\<close> bytes, \<open>None\<close> when it does not return \<^verbatim>\<open>Z_OK\<close>.
  \<open>zlib_inflate z\<close> is the content of the zlib stream \<open>z\<close>, \<open>None\<close> when \<open>z\<close> is not
  a complete valid stream (\<^verbatim>\<open>Z_DATA_ERROR\<close>, or \<^verbatim>\<open>Z_BUF_ERROR\<close> on a truncated one).
  \<open>first_thrower n\<close> is the scheduler's choice when \<open>n\<close> failing tasks of a pool can be the
  first to throw: the position (modulo \<open>n\<close>) of the one that does.
\<close>

record platform =
  hardware_concurrency :: nat
  first_thrower :: "nat \<Rightarrow> nat"
  zlib_compress2 :: "byte list \<Rightarrow> byte list option"
  zlib_inflate :: "byte list \<Rightarrow> byte list option"
  zlib_crc32 :: "byte list \<Rightarrow> 32 word"
  can_create :: "string \<Rightarrow> bool"

subsection \<open>ChunkMetadata and its 48 packed bytes\<close>

record ChunkMetadata =
  magic :: "byte list"
  chunk_index :: "32 word"
  total_chunks :: "32 word"
  original_file_size :: "64 word"
  uncompressed_chunk_size :: "64 word"
  compressed_size :: "64 word"
  filename_length :: "32 word"
  crc32_checksum :: "32 word"

definition DCHUNKV1 :: "byte list" where
  "DCHUNKV1 = map of_char ''DCHUNKV1''"

definition le_bytes :: "nat \<Rightarrow> 'a::len word \<Rightarrow> byte list" where
  "le_bytes n w = map (\<lambda>k. ucast (drop_bit (8 * k) w)) [0..<n]"

fun le_word :: "byte list \<Rightarrow> 'a::len word" where
  "le_word [] = 0"
| "le_word (b # bs) = ucast b OR push_bit 8 (le_word bs)"

definition sizeof_metadata :: nat where
  "sizeof_metadata = 48"

definition encode_metadata :: "ChunkMetadata \<Rightarrow> byte list" where
  "encode_metadata m =
     magic m @ le_bytes 4 (chunk_index m) @ le_bytes 4 (total_chunks m)
     @ le_bytes 8 (original_file_size m) @ le_bytes 8 (uncompressed_chunk_size m)
     @ le_bytes 8 (compressed_size m) @ le_bytes 4 (filename_length m)
     @ le_bytes 4 (crc32_checksum m)"

definition field :: "nat \<Rightarrow> nat \<Rightarrow> byte list \<Rightarrow> byte list" where
  "field off n bs = take n (drop off bs)"

definition decode_metadata :: "byte list \<Rightarrow> ChunkMetadata" where
  "decode_metadata bs =
     \<lparr> magic = field 0 8 bs,
       chunk_index = le_word (field 8 4 bs),
       total_chunks = le_word (field 12 4 bs),
       original_file_size = le_word (field 16 8 bs),
       uncompressed_chunk_size = le_word (field 24 8 bs),
       compressed_size = le_word (field 32 8 bs),
       filename_length = le_word (field 40 4 bs),
       crc32_checksum = le_word (field 44 4 bs) \<rparr>"

subsection \<open>The zlib wrappers\<close>

definition compress_data :: "platform \<Rightarrow> byte list \<Rightarrow> error + byte list" where
  "compress_data P input =
     (case zlib_compress2 P input of
        None \<Rightarrow> Inl (Error CompressionFailed)
      | Some compressed \<Rightarrow> Inr compressed)"

text \<open>
  \<^verbatim>\<open>uncompress\<close> writes into a buffer of \<open>expected_size\<close> bytes: a stream whose content is
  longer gives \<^verbatim>\<open>Z_BUF_ERROR\<close>; otherwise the vector is resized to the content's length.
\<close>

definition decompress_data :: "platform \<Rightarrow> byte list \<Rightarrow> nat \<Rightarrow> error + byte list" where
  "decompress_data P input expected_size =
     (case zlib_inflate P input of
        None \<Rightarrow> Inl (Error DecompressionFailed)
      | Some decompressed \<Rightarrow>
          if length decompressed \<le> expected_size then Inr decompressed
          else Inl (Error DecompressionFailed))"

definition calculate_crc32 :: "platform \<Rightarrow> byte list \<Rightarrow> 32 word" where
  "calculate_crc32 P data = zlib_crc32 P data"

subsection \<open>Streams, paths and the file system\<close>

text \<open>
  An input stream is the bytes not yet read and its good bit. \<^verbatim>\<open>read(buf, n)\<close> delivers
  \<open>n\<close> bytes, or the bytes that are left and then fails; a failed stream delivers
  nothing. The length of the delivered bytes is \<^verbatim>\<open>gcount()\<close>.
\<close>

type_synonym istream = "byte list \<times> bool"

fun sread :: "nat \<Rightarrow> istream \<Rightarrow> byte list \<times> istream" where
  "sread n (bs, ok) =
     (if \<not> ok then ([], (bs, False))
      else if n \<le> length bs then (take n bs, (drop n bs, True))
      else (bs, ([], False)))"

text \<open>
  The file system is flat: a list of directories and a list of regular files with their
  contents, in the order in which a directory listing presents them. A path names a file
  by its spelling. \<open>path_filename\<close> is \<^verbatim>\<open>fs::path::filename\<close> and
  \<open>path_extension\<close> is \<^verbatim>\<open>fs::path::extension\<close>.
\<close>

record filesystem =
  dirs :: "string list"
  files :: "(string \<times> byte list) list"

definition file_exists :: "filesystem \<Rightarrow> string \<Rightarrow> bool" where
  "file_exists fs p = (p \<in> set (map fst (files fs)) \<or> p \<in> set (dirs fs))"

definition open_file :: "filesystem \<Rightarrow> string \<Rightarrow> byte list option" where
  "open_file fs p = map_of (files fs) p"

definition create_directories :: "filesystem \<Rightarrow> string \<Rightarrow> error + filesystem" where
  "create_directories fs d =
     (if d \<in> set (map fst (files fs)) then Inl (Error DirectoryError)
      else if d \<in> set (dirs fs) then Inr fs
      else Inr (fs\<lparr>dirs := dirs fs @ [d]\<rparr>))"

fun write_entry :: "(string \<times> byte list) list \<Rightarrow> string \<Rightarrow> byte list \<Rightarrow> (string \<times> byte list) list" where
  "write_entry [] p c = [(p, c)]"
| "write_entry ((q, d) # r) p c = (if q = p then (p, c) # r else (q, d) # write_entry r p c)"

definition write_file :: "filesystem \<Rightarrow> string \<times> byte list \<Rightarrow> filesystem" where
  "write_file fs w = fs\<lparr>files := write_entry (files fs) (fst w) (snd w)\<rparr>"

definition write_files :: "filesystem \<Rightarrow> (string \<times> byte list) list \<Rightarrow> filesystem" where
  "write_files fs ws = foldl write_file fs ws"

definition path_filename :: "string \<Rightarrow> string" where
  "path_filename p = rev (takeWhile (\<lambda>c. c \<noteq> CHR ''/'') (rev p))"

definition path_extension :: "string \<Rightarrow> string" where
  "path_extension p =
     (let f = path_filename p;
          e = rev (takeWhile (\<lambda>c. c \<noteq> CHR ''.'') (rev f))
      in if f = ''.'' \<or> f = ''..'' then []
         else if CHR ''.'' \<notin> set f then []
         else if Suc (length e) = length f then []
         else CHR ''.'' # e)"

definition in_directory :: "string \<Rightarrow> string \<Rightarrow> bool" where
  "in_directory d p =
     (take (Suc (length d)) p = d @ ''/''
      \<and> drop (Suc (length d)) p \<noteq> []
      \<and> CHR ''/'' \<notin> set (drop (Suc (length d)) p))"

definition directory_iterator :: "filesystem \<Rightarrow> string \<Rightarrow> string list" where
  "directory_iterator fs d = filter (in_directory d) (map fst (files fs))"

text \<open>\<^verbatim>\<open>std::to_string\<close> on a \<^verbatim>\<open>size_t\<close>.\<close>

definition digit :: "nat \<Rightarrow> char" where
  "digit d = ''0123456789'' ! d"

function to_string :: "nat \<Rightarrow> string" where
  "to_string n = (if n < 10 then [digit n] else to_string (n div 10) @ [digit (n mod 10)])"
  by pat_completeness auto
termination
  by (relation "measure id") auto

declare to_string.simps [simp del]

subsection \<open>ChunkData and the thread pool\<close>

record ChunkData =
  index :: nat
  data :: "byte list"
  compressed_data :: "byte list"
  processed :: bool

definition new_chunk :: ChunkData where
  "new_chunk = \<lparr> index = 0, data = [], compressed_data = [], processed = False \<rparr>"

text \<open>
  A task is a function on the shared vector of chunks. The workers leave their loop only
  when the queue is empty, so a pool with at least one worker runs every task before its
  destructor returns; a pool of no workers runs nothing. The tasks write disjoint slots and
  read only their own, so the vector after the drain does not depend on the schedule, and
  the embedding applies the tasks in the order of submission.

  An exception of a task leaves the thread function and ends the process at once. Which
  task is the first to throw is the scheduler's choice among the failing tasks that can be
  running while the process is alive: with \<open>k\<close> workers, a failing task with fewer than
  \<open>k\<close> failing tasks before it (they occupy the other workers). \<open>thrown k\<close> lists the
  outcomes of these tasks, and the vector when there is none; \<open>first_thrower\<close> of the
  platform picks one by its position.
\<close>

fun thrown :: "nat \<Rightarrow> ('s \<Rightarrow> error + 's) list \<Rightarrow> 's \<Rightarrow> error list \<times> 's" where
  "thrown k [] st = ([], st)"
| "thrown k (t # ts) st =
     (case t st of
        Inl e \<Rightarrow> (if k \<le> 1 then ([e], st)
                  else let r = thrown (k - 1) ts st in (e # fst r, snd r))
      | Inr st' \<Rightarrow> thrown k ts st')"

definition thread_exit :: "error \<Rightarrow> error" where
  "thread_exit e = (case e of Error x \<Rightarrow> Terminated x | other \<Rightarrow> other)"

definition run_pool :: "platform \<Rightarrow> ('s \<Rightarrow> error + 's) list \<Rightarrow> 's \<Rightarrow> error + 's" where
  "run_pool P tasks st =
     (if hardware_concurrency P = 0 then Inr st
      else case thrown (hardware_concurrency P) tasks st of
             ([], st') \<Rightarrow> Inr st'
           | (e # es, _) \<Rightarrow>
               Inl (thread_exit ((e # es) ! (first_thrower P (length (e # es)) mod length (e # es)))))"

text \<open>
  The source calls the destructor by hand as its barrier (\<^verbatim>\<open>pool.~ThreadPool()\<close>), and
  the pool is an automatic object: it is destroyed a second time when its scope is left,
  by the return or by an exception thrown after the barrier. \<open>pool_scope_exit\<close> is what
  becomes of the way the scope is left; an outcome that has ended the process stays.
\<close>

fun pool_scope_exit :: "error option \<Rightarrow> error option" where
  "pool_scope_exit None = Some (Undefined (PoolDestroyedTwice None))"
| "pool_scope_exit (Some (Error e)) = Some (Undefined (PoolDestroyedTwice (Some e)))"
| "pool_scope_exit (Some other) = Some other"

subsection \<open>compress_file\<close>

definition num_chunks_of :: "nat \<Rightarrow> nat \<Rightarrow> nat" where
  "num_chunks_of chunk_size file_size =
     size_sub (size_add file_size chunk_size) 1 div chunk_size"

text \<open>
  The inner read loop. \<open>bytes_read\<close> is the length of the data read so far. When a read
  delivers nothing the loop repeats in the same state for ever.
\<close>

function read_loop :: "istream \<Rightarrow> nat \<Rightarrow> byte list \<Rightarrow> (byte list \<times> istream) option" where
  "read_loop s bytes_to_read acc =
     (if length acc < bytes_to_read then
        (let to_read = min BUFFER_SIZE (bytes_to_read - length acc);
             r = sread to_read s
         in if fst r = [] then None
            else read_loop (snd r) bytes_to_read (acc @ fst r))
      else Some (acc, s))"
  by pat_completeness auto
termination
proof (relation "measure (\<lambda>(s, n, acc). n - length acc)")
  fix s :: istream and bytes_to_read :: nat and acc :: "byte list" and to_read r
  assume "length acc < bytes_to_read" and "r = sread to_read s" and "fst r \<noteq> []"
  then show "((snd r, bytes_to_read, acc @ fst r), (s, bytes_to_read, acc))
          \<in> measure (\<lambda>(s, n, acc). n - length acc)"
    by (cases "fst r") auto
qed simp

declare read_loop.simps [simp del]

fun read_chunks :: "nat \<Rightarrow> nat \<Rightarrow> istream \<Rightarrow> nat list \<Rightarrow> ChunkData list option" where
  "read_chunks chunk_size file_size s [] = Some []"
| "read_chunks chunk_size file_size s (i # is) =
     (case read_loop s (min chunk_size (size_sub file_size (size_mul i chunk_size))) [] of
        None \<Rightarrow> None
      | Some (d, s') \<Rightarrow>
          (case read_chunks chunk_size file_size s' is of
             None \<Rightarrow> None
           | Some cs \<Rightarrow> Some (new_chunk\<lparr>index := i, data := d\<rparr> # cs)))"

definition compress_task :: "platform \<Rightarrow> nat \<Rightarrow> ChunkData list \<Rightarrow> error + ChunkData list" where
  "compress_task P i chunks =
     (if length chunks \<le> i then Inl (Undefined (SlotIndexOutOfRange i))
      else case compress_data P (data (chunks ! i)) of
             Inl e \<Rightarrow> Inl e
           | Inr z \<Rightarrow> Inr (chunks[i := (chunks ! i)\<lparr>compressed_data := z, processed := True\<rparr>]))"

text \<open>The chunks after the pool has been drained.\<close>

definition compress_chunks :: "platform \<Rightarrow> nat \<Rightarrow> byte list \<Rightarrow> error + ChunkData list" where
  "compress_chunks P chunk_size content =
     (if chunk_size = 0 then Inl (Undefined DivisionByZero)
      else let file_size = length content;
               num_chunks = num_chunks_of chunk_size file_size
           in case read_chunks chunk_size file_size (content, True) [0..<num_chunks] of
                None \<Rightarrow> Inl Diverges
              | Some chunks \<Rightarrow> run_pool P (map (compress_task P) [0..<num_chunks]) chunks)"

definition chunk_metadata :: "platform \<Rightarrow> string \<Rightarrow> nat \<Rightarrow> nat \<Rightarrow> nat \<Rightarrow> ChunkData \<Rightarrow> ChunkMetadata" where
  "chunk_metadata P filename file_size num_chunks i c =
     \<lparr> magic = DCHUNKV1,
       chunk_index = of_nat i,
       total_chunks = of_nat num_chunks,
       original_file_size = of_nat file_size,
       uncompressed_chunk_size = of_nat (length (data c)),
       compressed_size = of_nat (length (compressed_data c)),
       filename_length = of_nat (length filename),
       crc32_checksum = calculate_crc32 P (data c) \<rparr>"

definition chunk_filename :: "string \<Rightarrow> nat \<Rightarrow> nat \<Rightarrow> string" where
  "chunk_filename output_dir i num_chunks =
     output_dir @ ''/chunk_'' @ to_string (size_add i 1) @ ''_of_'' @ to_string num_chunks @ ''.dchunk''"

definition chunk_record :: "ChunkMetadata \<Rightarrow> string \<Rightarrow> byte list \<Rightarrow> byte list" where
  "chunk_record metadata filename payload =
     encode_metadata metadata @ map of_char filename @ payload"

text \<open>The writing loop, from chunk \<open>i\<close> on: the records written, in order, and how it ended.\<close>

fun write_chunks ::
  "platform \<Rightarrow> string \<Rightarrow> string \<Rightarrow> nat \<Rightarrow> nat \<Rightarrow> nat \<Rightarrow> ChunkData list
     \<Rightarrow> (string \<times> byte list) list \<times> error option" where
  "write_chunks P output_dir filename file_size num_chunks i [] = ([], None)"
| "write_chunks P output_dir filename file_size num_chunks i (c # cs) =
     (if \<not> processed c then ([], Some (Error ChunkProcessingFailed))
      else let metadata = chunk_metadata P filename file_size num_chunks i c;
               path = chunk_filename output_dir i num_chunks
           in if \<not> can_create P path then ([], Some (Error CannotCreateChunk))
              else let r = write_chunks P output_dir filename file_size num_chunks (Suc i) cs
                   in ((path, chunk_record metadata filename (compressed_data c)) # fst r, snd r))"

text \<open>
  The pipeline from the bytes of the input file to the records written, in order, and how
  its last statement ended: by a task that ended the process, by the \<^verbatim>\<open>throw\<close> of the
  writing loop, or by the end of the loop.
\<close>

definition split_compress ::
  "platform \<Rightarrow> nat \<Rightarrow> string \<Rightarrow> string \<Rightarrow> byte list \<Rightarrow> (string \<times> byte list) list \<times> error option" where
  "split_compress P chunk_size output_dir filename content =
     (case compress_chunks P chunk_size content of
        Inl e \<Rightarrow> ([], Some e)
      | Inr chunks \<Rightarrow>
          write_chunks P output_dir filename (length content) (length chunks) 0 chunks)"

text \<open>
  \<open>compress_file\<close> checks the paths, runs the pipeline on the content of the input file
  and puts the records on disk; every record is closed before the next one is opened. Once
  the barrier has been passed, the function is left through the second destruction of
  the pool, whatever the writing loop did. A directory as input path passes
  \<^verbatim>\<open>fs::exists\<close>; whether \<^verbatim>\<open>ifstream\<close> opens it and what \<^verbatim>\<open>tellg\<close> then reports is the
  platform's: the embedding ends there with \<open>DirectoryAsInput\<close>.
\<close>

definition compress_file ::
  "platform \<Rightarrow> nat \<Rightarrow> filesystem \<Rightarrow> string \<Rightarrow> string \<Rightarrow> filesystem \<times> error option" where
  "compress_file P chunk_size fs input_path output_dir =
     (if \<not> file_exists fs input_path then (fs, Some (Error InputMissing))
      else case create_directories fs output_dir of
        Inl e \<Rightarrow> (fs, Some e)
      | Inr fs1 \<Rightarrow>
         (case open_file fs1 input_path of
            None \<Rightarrow>
              (fs1, Some (if input_path \<in> set (dirs fs1) then DirectoryAsInput
                          else Error CannotOpenInput))
          | Some content \<Rightarrow>
             (case compress_chunks P chunk_size content of
                Inl e \<Rightarrow> (fs1, Some e)
              | Inr chunks \<Rightarrow>
                  let r = write_chunks P output_dir (path_filename input_path) (length content)
                            (length chunks) 0 chunks
                  in (write_files fs1 (fst r), pool_scope_exit (snd r)))))"

subsection \<open>decompress_file\<close>

text \<open>
  Opening a path for reading: the stream of the file, or a failed stream. Reading a header
  reads \<^verbatim>\<open>sizeof(ChunkMetadata)\<close> bytes into a struct whose \<open>magic\<close> starts as the tag
  (its default member initialiser) and whose other fields start indeterminate.
\<close>

definition ifstream :: "filesystem \<Rightarrow> string \<Rightarrow> istream" where
  "ifstream fs p = (case open_file fs p of None \<Rightarrow> ([], False) | Some c \<Rightarrow> (c, True))"

definition discover :: "filesystem \<Rightarrow> string \<Rightarrow> string list" where
  "discover fs chunks_dir =
     sort (filter (\<lambda>p. path_extension p = ''.dchunk'') (directory_iterator fs chunks_dir))"

text \<open>\<^verbatim>\<open>v.resize(n)\<close> followed by a read of \<open>got\<close> into the front of \<open>v\<close>.\<close>

definition resize :: "nat \<Rightarrow> byte list \<Rightarrow> byte list" where
  "resize n v = take n v @ replicate (n - length v) 0"

definition read_into :: "byte list \<Rightarrow> byte list \<Rightarrow> byte list" where
  "read_into got v = got @ drop (length got) v"

text \<open>The first loop: every listed file, up to \<open>total_chunks\<close> of them, into the slot of its index.\<close>

fun load_chunks :: "filesystem \<Rightarrow> string list \<Rightarrow> ChunkData list \<Rightarrow> error + ChunkData list" where
  "load_chunks fs [] chunks = Inr chunks"
| "load_chunks fs (p # ps) chunks =
     (case open_file fs p of
        None \<Rightarrow> Inl (Error (CannotOpenChunk p))
      | Some content \<Rightarrow>
          let h = sread sizeof_metadata (content, True) in
          if length (fst h) < sizeof_metadata then Inl (Undefined IndeterminateHeader)
          else let metadata = decode_metadata (fst h);
                   f = sread (unat (filename_length metadata)) (snd h);
                   k = unat (chunk_index metadata)
               in if length chunks \<le> k then Inl (Undefined (SlotIndexOutOfRange k))
                  else let payload = sread (unat (compressed_size metadata)) (snd f);
                           v = resize (unat (compressed_size metadata)) (compressed_data (chunks ! k))
                       in load_chunks fs ps
                            (chunks[k := (chunks ! k)\<lparr>index := k,
                                                      compressed_data := read_into (fst payload) v\<rparr>]))"

text \<open>The task of index \<open>i\<close>: the header comes from \<^verbatim>\<open>chunk_files[i]\<close>, the payload from slot \<open>i\<close>.\<close>

definition verify_chunk :: "platform \<Rightarrow> istream \<Rightarrow> nat \<Rightarrow> ChunkData list \<Rightarrow> error + ChunkData list" where
  "verify_chunk P chunk_file i chunks =
     (let h = sread sizeof_metadata chunk_file in
      if length (fst h) < sizeof_metadata then Inl (Undefined IndeterminateHeader)
      else if length chunks \<le> i then Inl (Undefined (SlotIndexOutOfRange i))
      else let metadata = decode_metadata (fst h) in
           case decompress_data P (compressed_data (chunks ! i))
                  (unat (uncompressed_chunk_size metadata)) of
             Inl e \<Rightarrow> Inl e
           | Inr d \<Rightarrow>
               if calculate_crc32 P d \<noteq> crc32_checksum metadata then Inl (Error (CrcMismatch i))
               else Inr (chunks[i := (chunks ! i)\<lparr>data := d, processed := True\<rparr>]))"

definition decompress_task ::
  "platform \<Rightarrow> filesystem \<Rightarrow> string list \<Rightarrow> nat \<Rightarrow> ChunkData list \<Rightarrow> error + ChunkData list" where
  "decompress_task P fs chunk_files i chunks =
     (if length chunk_files \<le> i then Inl (Undefined (FileIndexOutOfRange i))
      else verify_chunk P (ifstream fs (chunk_files ! i)) i chunks)"

definition decompress_tasks ::
  "platform \<Rightarrow> filesystem \<Rightarrow> string list \<Rightarrow> nat \<Rightarrow> (ChunkData list \<Rightarrow> error + ChunkData list) list" where
  "decompress_tasks P fs chunk_files n_total = map (decompress_task P fs chunk_files) [0..<n_total]"

text \<open>
  The reassembly: the bytes go through a buffer that is flushed when it holds
  \<open>BUFFER_SIZE\<close> bytes. The state is the buffer and the bytes already in the output file.
\<close>

fun push_bytes :: "byte list \<Rightarrow> byte list \<times> byte list \<Rightarrow> byte list \<times> byte list" where
  "push_bytes [] (buffer, out) = (buffer, out)"
| "push_bytes (b # bs) (buffer, out) =
     (if BUFFER_SIZE \<le> length (buffer @ [b]) then push_bytes bs ([], out @ buffer @ [b])
      else push_bytes bs (buffer @ [b], out))"

fun reassemble :: "ChunkData list \<Rightarrow> byte list \<times> byte list \<Rightarrow> byte list \<times> error option" where
  "reassemble [] (buffer, out) = (out @ buffer, None)"
| "reassemble (c # cs) (buffer, out) =
     (if \<not> processed c then (out, Some (Error ChunkDecompressionFailed))
      else reassemble cs (push_bytes (data c) (buffer, out)))"

text \<open>The header of the first listed file: its metadata and the embedded file name.\<close>

definition read_first :: "filesystem \<Rightarrow> string \<Rightarrow> error + ChunkMetadata \<times> string" where
  "read_first fs p =
     (let h = sread sizeof_metadata (ifstream fs p);
          seen = take 8 (fst h @ drop (length (fst h)) DCHUNKV1)
      in if seen \<noteq> DCHUNKV1 then Inl (Error InvalidFormat)
         else if length (fst h) < sizeof_metadata then Inl (Undefined IndeterminateHeader)
         else let metadata = decode_metadata (fst h);
                  n = unat (filename_length metadata);
                  f = sread n (snd h)
              in Inr (metadata, map (\<lambda>b. char_of (unat b)) (read_into (fst f) (replicate n 0))))"

text \<open>
  \<open>decompress_file\<close>. An exception of a task ends the process during the barrier. Past the
  barrier the output file is opened (created empty) and written; the stream is closed
  before the pool is destroyed a second time, whether the function is left by its end or by
  an exception of the reassembly.
\<close>

definition decompress_file ::
  "platform \<Rightarrow> filesystem \<Rightarrow> string \<Rightarrow> string \<Rightarrow> filesystem \<times> error option" where
  "decompress_file P fs chunks_dir output_path =
     (if chunks_dir \<notin> set (dirs fs) then (fs, Some (Error DirectoryError))
      else let chunk_files = discover fs chunks_dir in
      if chunk_files = [] then (fs, Some (Error NoChunkFiles))
      else case read_first fs (chunk_files ! 0) of
        Inl e \<Rightarrow> (fs, Some e)
      | Inr (first_metadata, original_filename) \<Rightarrow>
          let final_output_path = (if output_path = [] then original_filename else output_path);
              n_total = unat (total_chunks first_metadata)
          in case load_chunks fs (take n_total chunk_files) (replicate n_total new_chunk) of
               Inl e \<Rightarrow> (fs, Some e)
             | Inr loaded \<Rightarrow>
                (case run_pool P (decompress_tasks P fs chunk_files n_total) loaded of
                   Inl e \<Rightarrow> (fs, Some e)
                 | Inr chunks \<Rightarrow>
                     if \<not> can_create P final_output_path
                     then (fs, pool_scope_exit (Some (Error CannotCreateOutput)))
                     else let r = reassemble chunks ([], [])
                          in (write_file fs (final_output_path, fst r), pool_scope_exit (snd r))))"

subsection \<open>A reference platform\<close>

text \<open>
  The CRC-32 of zlib (polynomial \<open>0xEDB88320\<close>, reflected, start value 0), bit by bit, and
  a stand-in codec that stores the content behind the two bytes of a zlib header. They
  make the pipelines computable on concrete files. Its scheduler lets the earliest
  submitted task throw first.
\<close>

fun crc_bits :: "nat \<Rightarrow> 32 word \<Rightarrow> 32 word" where
  "crc_bits 0 c = c"
| "crc_bits (Suc k) c =
     crc_bits k (if bit c 0 then drop_bit 1 c XOR 0xEDB88320 else drop_bit 1 c)"

fun crc_update :: "32 word \<Rightarrow> byte list \<Rightarrow> 32 word" where
  "crc_update c [] = c"
| "crc_update c (b # bs) = crc_update (crc_bits 8 (c XOR ucast b)) bs"

definition crc32 :: "byte list \<Rightarrow> 32 word" where
  "crc32 bs = crc_update 0xFFFFFFFF bs XOR 0xFFFFFFFF"

definition stored_compress :: "byte list \<Rightarrow> byte list option" where
  "stored_compress x = Some (0x78 # 0x9C # x)"

fun stored_inflate :: "byte list \<Rightarrow> byte list option" where
  "stored_inflate (a # b # x) = (if a = 0x78 \<and> b = 0x9C then Some x else None)"
| "stored_inflate _ = None"

definition reference_platform :: "nat \<Rightarrow> platform" where
  "reference_platform threads =
     \<lparr> hardware_concurrency = threads,
       first_thrower = (\<lambda>n. 0),
       zlib_compress2 = stored_compress,
       zlib_inflate = stored_inflate,
       zlib_crc32 = crc32,
       can_create = (\<lambda>p. True) \<rparr>"

text \<open>The reference platform with \<open>k\<close> workers and a scheduler of its own.\<close>

definition scheduled_platform :: "nat \<Rightarrow> (nat \<Rightarrow> nat) \<Rightarrow> platform" where
  "scheduled_platform k f = (reference_platform k)\<lparr>first_thrower := f\<rparr>"

subsection \<open>Notions used in the statements\<close>

text \<open>The tasks run one after the other, as a pool of one worker runs them.\<close>

fun run_tasks :: "('s \<Rightarrow> error + 's) list \<Rightarrow> 's \<Rightarrow> error + 's" where
  "run_tasks [] st = Inr st"
| "run_tasks (t # ts) st =
     (case t st of
        Inl (Error e) \<Rightarrow> Inl (Terminated e)
      | Inl other \<Rightarrow> Inl other
      | Inr st' \<Rightarrow> run_tasks ts st')"

text \<open>
  The chunk of index \<open>i\<close> of a file cut at \<open>c\<close> bytes, the same chunk after its task, the
  record the writing loop makes of a chunk, and the number of chunks \<open>\<lceil>s / c\<rceil>\<close>.
\<close>

definition file_chunk :: "nat \<Rightarrow> byte list \<Rightarrow> nat \<Rightarrow> ChunkData" where
  "file_chunk c content i = new_chunk\<lparr>index := i, data := take c (drop (i * c) content)\<rparr>"

definition compressed_chunk :: "platform \<Rightarrow> ChunkData \<Rightarrow> ChunkData" where
  "compressed_chunk P c = c\<lparr>compressed_data := the (zlib_compress2 P (data c)), processed := True\<rparr>"

definition record_of :: "platform \<Rightarrow> string \<Rightarrow> string \<Rightarrow> nat \<Rightarrow> nat \<Rightarrow> nat \<Rightarrow> ChunkData \<Rightarrow> string \<times> byte list" where
  "record_of P output_dir filename file_size num_chunks i c =
     (chunk_filename output_dir i num_chunks,
      chunk_record (chunk_metadata P filename file_size num_chunks i c) filename (compressed_data c))"

definition ceil_div :: "nat \<Rightarrow> nat \<Rightarrow> nat" where
  "ceil_div s c = (s + c - 1) div c"

definition compressed_chunks :: "platform \<Rightarrow> nat \<Rightarrow> byte list \<Rightarrow> ChunkData list" where
  "compressed_chunks P c content =
     map (\<lambda>i. compressed_chunk P (file_chunk c content i)) [0..<ceil_div (length content) c]"

definition chunk_records :: "platform \<Rightarrow> nat \<Rightarrow> string \<Rightarrow> string \<Rightarrow> byte list \<Rightarrow> (string \<times> byte list) list" where
  "chunk_records P c filename output_dir content =
     map (\<lambda>i. record_of P output_dir filename (length content)
                 (ceil_div (length content) c) i (compressed_chunk P (file_chunk c content i)))
       [0..<ceil_div (length content) c]"


definition empty_input :: filesystem where
  "empty_input = \<lparr> dirs = [], files = [(''empty.bin'', [])] \<rparr>"

definition small_input :: filesystem where
  "small_input = \<lparr> dirs = [], files = [(''a.bin'', [1, 2, 3])] \<rparr>"

definition string_value :: "string \<Rightarrow> nat" where
  "string_value s = foldl (\<lambda>a c. 10 * a + (of_char c - 48)) 0 s"

definition claimed_total :: "filesystem \<Rightarrow> string \<Rightarrow> nat" where
  "claimed_total fs chunks_dir =
     (case discover fs chunks_dir of
        [] \<Rightarrow> 0
      | p # _ \<Rightarrow> (case read_first fs p of Inl _ \<Rightarrow> 0 | Inr r \<Rightarrow> unat (total_chunks (fst r))))"

definition example_record :: "nat \<Rightarrow> string \<times> byte list" where
  "example_record i =
     record_of (reference_platform 1) ''out'' ''a.bin'' 3 2 i
       (compressed_chunk (reference_platform 1) (file_chunk 2 [1, 2, 3] i))"

definition lone_second_chunk :: filesystem where
  "lone_second_chunk = \<lparr> dirs = [''out''], files = [example_record 1] \<rparr>"

definition ten_bytes :: "byte list" where
  "ten_bytes = [0, 1, 2, 3, 4, 5, 6, 7, 8, 9]"

definition ten_input :: filesystem where
  "ten_input = \<lparr> dirs = [], files = [(''a.bin'', ten_bytes)] \<rparr>"

definition ten_metadata :: "nat \<Rightarrow> ChunkMetadata" where
  "ten_metadata i =
     chunk_metadata (reference_platform 1) ''a.bin'' 10 10 i
       (compressed_chunk (reference_platform 1) (file_chunk 1 ten_bytes i))"

definition ten_chunks :: filesystem where
  "ten_chunks = fst (compress_file (reference_platform 1) 1 ten_input ''a.bin'' ''out'')"

definition place :: "filesystem \<Rightarrow> ChunkData list \<Rightarrow> string \<Rightarrow> ChunkData list" where
  "place fs chunks p =
     (let content = the (open_file fs p);
          metadata = decode_metadata content;
          k = unat (chunk_index metadata)
      in chunks[k := (chunks ! k)
           \<lparr>index := k,
            compressed_data := take (unat (compressed_size metadata))
                                 (drop (48 + unat (filename_length metadata)) content)\<rparr>])"

definition well_formed :: "filesystem \<Rightarrow> nat \<Rightarrow> string \<Rightarrow> bool" where
  "well_formed fs n p =
     (case open_file fs p of
        None \<Rightarrow> False
      | Some content \<Rightarrow>
          48 + unat (filename_length (decode_metadata content))
             + unat (compressed_size (decode_metadata content)) \<le> length content
          \<and> unat (chunk_index (decode_metadata content)) < n)"

definition ten_loaded :: "ChunkData list" where
  "ten_loaded = foldl (place ten_chunks) (replicate 10 new_chunk) (take 10 (discover ten_chunks ''out''))"

definition first_metadata :: ChunkMetadata where
  "first_metadata =
     chunk_metadata (reference_platform 1) ''a.bin'' 3 2 0
       (compressed_chunk (reference_platform 1) (file_chunk 2 [1, 2, 3] 0))"

definition second_metadata :: ChunkMetadata where
  "second_metadata =
     chunk_metadata (reference_platform 1) ''a.bin'' 3 2 1
       (compressed_chunk (reference_platform 1) (file_chunk 2 [1, 2, 3] 1))"

definition bad_magic :: "ChunkMetadata \<Rightarrow> ChunkMetadata" where
  "bad_magic m = m\<lparr>magic := map of_char ''XCHUNKV1''\<rparr>"

definition second_magic_bad :: filesystem where
  "second_magic_bad =
     \<lparr> dirs = [''out''],
       files = [(''out/chunk_1_of_2.dchunk'',
                   chunk_record first_metadata ''a.bin'' [0x78, 0x9C, 1, 2]),
                (''out/chunk_2_of_2.dchunk'',
                   chunk_record (bad_magic second_metadata) ''a.bin'' [0x78, 0x9C, 3])] \<rparr>"

definition first_magic_bad :: filesystem where
  "first_magic_bad =
     \<lparr> dirs = [''out''],
       files = [(''out/chunk_1_of_2.dchunk'',
                   chunk_record (bad_magic first_metadata) ''a.bin'' [0x78, 0x9C, 1, 2]),
                (''out/chunk_2_of_2.dchunk'',
                   chunk_record second_metadata ''a.bin'' [0x78, 0x9C, 3])] \<rparr>"

definition ten_chunks_reversed :: filesystem where
  "ten_chunks_reversed = ten_chunks\<lparr>files := rev (files ten_chunks)\<rparr>"

definition chunk_basename :: "nat \<Rightarrow> nat \<Rightarrow> string" where
  "chunk_basename i n = ''chunk_'' @ to_string (size_add i 1) @ ''_of_'' @ to_string n"

definition chunk_set ::
  "filesystem \<Rightarrow> nat \<Rightarrow> (nat \<Rightarrow> string) \<Rightarrow> (nat \<Rightarrow> ChunkMetadata) \<Rightarrow> string \<Rightarrow> (nat \<Rightarrow> byte list) \<Rightarrow> bool" where
  "chunk_set fs n name md fn z =
     (\<forall>i<n. open_file fs (name i) = Some (chunk_record (md i) fn (z i))
            \<and> magic (md i) = DCHUNKV1
            \<and> unat (chunk_index (md i)) = i
            \<and> unat (total_chunks (md i)) = n
            \<and> unat (filename_length (md i)) = length fn
            \<and> unat (compressed_size (md i)) = length (z i))"

section \<open>Properties\<close>

subsection \<open>The pool and its tasks in order\<close>

lemma thread_exit_simps [simp]:
  "thread_exit (Error x) = Terminated x"
  "thread_exit (Terminated x) = Terminated x"
  "thread_exit (Undefined u) = Undefined u"
  "thread_exit Diverges = Diverges"
  "thread_exit DirectoryAsInput = DirectoryAsInput"
  by (simp_all add: thread_exit_def)

lemma run_tasks_Inl: "t st = Inl e \<Longrightarrow> run_tasks (t # ts) st = Inl (thread_exit e)"
  by (cases e) simp_all

lemma thrown_run_tasks_Inr:
  "run_tasks tasks st = Inr st' \<Longrightarrow> thrown k tasks st = ([], st')"
proof (induction tasks arbitrary: st)
  case Nil
  then show ?case by simp
next
  case (Cons t ts)
  show ?case
  proof (cases "t st")
    case (Inl e)
    then show ?thesis
      using Cons.prems run_tasks_Inl [of t st _ ts] by simp
  next
    case (Inr st1)
    then show ?thesis
      using Cons by simp
  qed
qed

lemma thrown_run_tasks_Inl:
  "run_tasks tasks st = Inl e \<Longrightarrow> fst (thrown k tasks st) \<noteq> []"
proof (induction tasks arbitrary: st)
  case Nil
  then show ?case by simp
next
  case (Cons t ts)
  show ?case
  proof (cases "t st")
    case (Inl e')
    then show ?thesis
      by (simp add: Let_def)
  next
    case (Inr st1)
    then show ?thesis
      using Cons by simp
  qed
qed

lemma thrown_one_worker:
  "k \<le> 1 \<Longrightarrow>
   (case thrown k tasks st of
      ([], st') \<Rightarrow> Inr st'
    | (e # es, _) \<Rightarrow> Inl (thread_exit ((e # es) ! (f (length (e # es)) mod length (e # es)))))
   = run_tasks tasks st"
proof (induction tasks arbitrary: st)
  case Nil
  then show ?case by simp
next
  case (Cons t ts)
  show ?case
  proof (cases "t st")
    case (Inl e)
    then show ?thesis
      using Cons.prems run_tasks_Inl [of t st _ ts] by simp
  next
    case (Inr st1)
    then show ?thesis
      using Cons by simp
  qed
qed

lemma thrown_outcomes:
  "e \<in> set (fst (thrown k tasks st)) \<Longrightarrow> \<exists>t \<in> set tasks. \<exists>s. t s = Inl e"
proof (induction tasks arbitrary: k st)
  case Nil
  then show ?case by simp
next
  case (Cons t ts)
  show ?case
  proof (cases "t st")
    case (Inl e')
    then show ?thesis
      using Cons.prems Cons.IH [of "k - 1" st]
      by (auto simp: Let_def split: if_splits)
  next
    case (Inr st1)
    then show ?thesis
      using Cons.prems Cons.IH [of k st1] by auto
  qed
qed

lemma run_pool_one_worker:
  "hardware_concurrency P = 1 \<Longrightarrow> run_pool P tasks st = run_tasks tasks st"
  using thrown_one_worker [where k = 1 and tasks = tasks and st = st and f = "first_thrower P"]
  by (simp add: run_pool_def)

lemma run_pool_no_worker: "hardware_concurrency P = 0 \<Longrightarrow> run_pool P tasks st = Inr st"
  by (simp add: run_pool_def)

lemma run_pool_Inr:
  "0 < hardware_concurrency P \<Longrightarrow> run_tasks tasks st = Inr st' \<Longrightarrow> run_pool P tasks st = Inr st'"
  by (simp add: run_pool_def thrown_run_tasks_Inr)

lemma run_pool_outcome:
  assumes "0 < hardware_concurrency P" and "run_pool P tasks st = Inl x"
  shows "\<exists>t \<in> set tasks. \<exists>s e. t s = Inl e \<and> x = thread_exit e"
proof -
  obtain es st' where r: "thrown (hardware_concurrency P) tasks st = (es, st')"
    by (cases "thrown (hardware_concurrency P) tasks st")
  with assms obtain e es' where es: "es = e # es'"
    by (cases es) (auto simp: run_pool_def)
  define e' where "e' = es ! (first_thrower P (length es) mod length es)"
  have "e' \<in> set es"
    unfolding e'_def by (rule nth_mem) (simp add: es)
  then have "e' \<in> set (fst (thrown (hardware_concurrency P) tasks st))"
    by (simp add: r)
  from thrown_outcomes [OF this] obtain t s where "t \<in> set tasks" "t s = Inl e'"
    by blast
  moreover have "x = thread_exit e'"
    using assms r by (simp add: run_pool_def es e'_def)
  ultimately show ?thesis
    by blast
qed

lemma run_pool_Inl:
  assumes "0 < hardware_concurrency P" and "run_tasks tasks st = Inl e"
  shows "\<exists>x. run_pool P tasks st = Inl x"
proof -
  obtain es st' where r: "thrown (hardware_concurrency P) tasks st = (es, st')"
    by (cases "thrown (hardware_concurrency P) tasks st")
  with thrown_run_tasks_Inl [OF assms(2), of "hardware_concurrency P"] obtain y ys
    where "es = y # ys"
    by (cases es) auto
  then show ?thesis
    using assms(1) r by (simp add: run_pool_def)
qed

lemma run_pool_done:
  assumes "0 < hardware_concurrency P" and "run_pool P tasks st = Inr st'"
  shows "run_tasks tasks st = Inr st'"
proof (cases "run_tasks tasks st")
  case (Inl e)
  from run_pool_Inl [OF assms(1) this] show ?thesis
    using assms(2) by auto
next
  case (Inr st1)
  from run_pool_Inr [OF assms(1) this] show ?thesis
    using assms(2) Inr by simp
qed


subsection \<open>The header survives its 48 bytes\<close>

lemma le_step:
  "(ucast (ucast (v :: 'a::len word) :: byte) :: 'a word) OR push_bit 8 (take_bit (8 * n) (drop_bit 8 v))
   = take_bit (8 + 8 * n) v"
proof (rule bit_word_eqI)
  fix k assume k: "k < LENGTH('a)"
  show "bit ((ucast (ucast v :: byte) :: 'a word) OR push_bit 8 (take_bit (8 * n) (drop_bit 8 v))) k
        = bit (take_bit (8 + 8 * n) v) k"
  proof (cases "k < 8")
    case True
    with k show ?thesis by (auto simp add: bit_simps)
  next
    case False
    then have "8 + (k - 8) = k" by simp
    with False k show ?thesis by (auto simp add: bit_simps)
  qed
qed

lemma le_word_gen:
  "(le_word (map (\<lambda>k. ucast (drop_bit (8 * k) w)) [i..<i + n]) :: 'a::len word)
     = take_bit (8 * n) (drop_bit (8 * i) (w :: 'a word))"
proof (induction n arbitrary: i)
  case 0
  then show ?case by simp
next
  case (Suc n)
  have "[i..<i + Suc n] = i # [Suc i..<Suc i + n]"
    by (simp add: upt_rec)
  then show ?case
    using Suc.IH [of "Suc i"] le_step [of "drop_bit (8 * i) w" n]
    by (simp add: add.commute)
qed

lemma le_word_le_bytes:
  "(le_word (le_bytes n (w :: 'a::len word)) :: 'a word) = take_bit (8 * n) w"
  using le_word_gen [of w 0 n] by (simp add: le_bytes_def)

lemma le_word_le_bytes_32 [simp]: "le_word (le_bytes 4 w) = (w :: 32 word)"
  by (simp add: le_word_le_bytes take_bit_word_eq_self)

lemma le_word_le_bytes_64 [simp]: "le_word (le_bytes 8 w) = (w :: 64 word)"
  by (simp add: le_word_le_bytes take_bit_word_eq_self)

lemma length_le_bytes [simp]: "length (le_bytes n w) = n"
  by (simp add: le_bytes_def)

lemma length_encode_metadata:
  "length (magic m) = 8 \<Longrightarrow> length (encode_metadata m) = 48"
  by (simp add: encode_metadata_def)

lemma field_here: "length a = n \<Longrightarrow> field 0 n (a @ r) = a"
  by (simp add: field_def)

lemma field_skip: "length a \<le> off \<Longrightarrow> field off n (a @ r) = field (off - length a) n r"
  by (simp add: field_def)

lemma decode_encode_metadata:
  assumes "length (magic m) = 8"
  shows "decode_metadata (encode_metadata m @ r) = m"
  using assms
  by (simp add: decode_metadata_def encode_metadata_def field_skip field_here)

lemma length_DCHUNKV1 [simp]: "length DCHUNKV1 = 8"
  by (simp add: DCHUNKV1_def)

subsection \<open>Sizes that do not wrap\<close>

lemma size_add_small: "a + b < 2 ^ 64 \<Longrightarrow> size_add a b = a + b"
  by (simp add: size_add_def)

lemma size_sub_small:
  assumes "b \<le> a" and "a < 2 ^ 64"
  shows "size_sub a b = a - b"
proof -
  have "size_sub a b = (a + 2 ^ 64 - b) mod 2 ^ 64"
    using assms by (simp add: size_sub_def)
  also have "a + 2 ^ 64 - b = (a - b) + 2 ^ 64"
    using assms by simp
  also have "((a - b) + 2 ^ 64) mod 2 ^ 64 = (a - b) mod 2 ^ 64"
    by (rule mod_add_self2)
  also have "\<dots> = a - b"
    using assms by simp
  finally show ?thesis .
qed

lemma size_mul_small: "a * b < 2 ^ 64 \<Longrightarrow> size_mul a b = a * b"
  by (simp add: size_mul_def)

lemma num_chunks_of_small:
  assumes "0 < c" and "s + c < 2 ^ 64"
  shows "num_chunks_of c s = (s + c - 1) div c"
  using assms by (simp add: num_chunks_of_def size_add_small size_sub_small)

lemma BUFFER_SIZE_pos: "0 < BUFFER_SIZE"
  by (simp add: BUFFER_SIZE_def)

lemma read_loop_good:
  "k \<le> length bs \<Longrightarrow>
   read_loop (bs, True) (length acc + k) acc = Some (acc @ take k bs, (drop k bs, True))"
proof (induction k arbitrary: bs acc rule: less_induct)
  case (less k)
  show ?case
  proof (cases "k = 0")
    case True
    then show ?thesis by (simp add: read_loop.simps)
  next
    case False
    define t where "t = min BUFFER_SIZE k"
    have t: "0 < t" "t \<le> k" "t \<le> length bs"
      using False less.prems BUFFER_SIZE_pos by (auto simp: t_def)
    define acc' where "acc' = acc @ take t bs"
    have step: "read_loop (bs, True) (length acc + k) acc
                  = read_loop (drop t bs, True) (length acc + k) acc'"
      using False t by (subst read_loop.simps) (auto simp: t_def Let_def acc'_def)
    have len: "length acc' + (k - t) = length acc + k"
      using t by (simp add: acc'_def)
    have "read_loop (drop t bs, True) (length acc' + (k - t)) acc'
            = Some (acc' @ take (k - t) (drop t bs), (drop (k - t) (drop t bs), True))"
      using t less.prems by (intro less.IH) auto
    then have "read_loop (drop t bs, True) (length acc + k) acc'
            = Some (acc' @ take (k - t) (drop t bs), (drop (k - t) (drop t bs), True))"
      by (simp only: len)
    moreover have "take t bs @ take (k - t) (drop t bs) = take k bs"
      using t by (metis le_add_diff_inverse take_add)
    moreover have "drop (k - t) (drop t bs) = drop k bs"
      using t by simp
    ultimately have "read_loop (drop t bs, True) (length acc + k) acc'
            = Some (acc @ take k bs, (drop k bs, True))"
      by (simp add: acc'_def)
    with step show ?thesis
      by simp
  qed
qed

lemma read_loop_chunk:
  "k \<le> length bs \<Longrightarrow> read_loop (bs, True) k [] = Some (take k bs, (drop k bs, True))"
  using read_loop_good [of k bs "[]"] by simp

lemma chunk_range:
  assumes "0 < c" and "i < (s + c - 1) div c"
  shows "i * c < (s::nat)"
proof (rule ccontr)
  assume "\<not> i * c < s"
  then have "s + c - 1 < (i + 1) * c"
    using assms(1) by simp
  then have "(s + c - 1) div c < i + 1"
    using assms(1) by (simp add: div_less_iff_less_mult)
  with assms(2) show False by simp
qed

lemma read_chunks_good:
  assumes "0 < c" and "length content + c < 2 ^ 64"
    and "n = (length content + c - 1) div c" and "i \<le> n"
  shows "read_chunks c (length content) (drop (i * c) content, True) [i..<n]
           = Some (map (file_chunk c content) [i..<n])"
  using assms(4)
proof (induction "n - i" arbitrary: i)
  case 0
  then show ?case by simp
next
  case (Suc d)
  then have i: "i < n" by simp
  then have ic: "i * c < length content"
    using chunk_range [of c i "length content"] assms by simp
  have sz: "size_sub (length content) (size_mul i c) = length content - i * c"
    using ic assms(2) by (simp add: size_mul_small size_sub_small)
  define k where "k = min c (length content - i * c)"
  have k: "k \<le> length (drop (i * c) content)"
    by (simp add: k_def)
  have tk: "take k (drop (i * c) content) = take c (drop (i * c) content)"
    by (simp add: k_def min_def)
  have dk: "drop k (drop (i * c) content) = drop (Suc i * c) content"
    by (auto simp add: k_def min_def add.commute)
  have IH: "read_chunks c (length content) (drop (Suc i * c) content, True) [Suc i..<n]
              = Some (map (file_chunk c content) [Suc i..<n])"
    using Suc i by (intro Suc.hyps(1)) auto
  have "[i..<n] = i # [Suc i..<n]"
    using i by (simp add: upt_rec)
  moreover have "read_loop (drop (i * c) content, True) k []
          = Some (take c (drop (i * c) content), (drop (Suc i * c) content, True))"
    using read_loop_chunk [OF k] by (simp only: tk dk)
  ultimately show ?case
    using IH sz
    by (simp add: k_def [symmetric] file_chunk_def)
qed

lemma compress_task_good:
  assumes "zlib_compress2 P (data (cs ! k)) \<noteq> None" and "k < length cs"
  shows "compress_task P k cs = Inr (cs[k := compressed_chunk P (cs ! k)])"
  using assms by (auto simp: compress_task_def compress_data_def compressed_chunk_def)

lemma run_compress_tasks:
  assumes "\<forall>x. zlib_compress2 P x \<noteq> None" and "k \<le> length cs"
  shows "run_tasks (map (compress_task P) [k..<length cs]) cs
           = Inr (take k cs @ map (compressed_chunk P) (drop k cs))"
  using assms(2)
proof (induction "length cs - k" arbitrary: k cs)
  case 0
  then show ?case by simp
next
  case (Suc d)
  then have k: "k < length cs" by simp
  define cs' where "cs' = cs[k := compressed_chunk P (cs ! k)]"
  have len: "length cs' = length cs"
    by (simp add: cs'_def)
  have "run_tasks (map (compress_task P) [Suc k..<length cs']) cs'
          = Inr (take (Suc k) cs' @ map (compressed_chunk P) (drop (Suc k) cs'))"
    using Suc k len by (intro Suc.hyps(1)) auto
  moreover have "take (Suc k) cs' = take k cs @ [compressed_chunk P (cs ! k)]"
    using k by (simp add: cs'_def take_Suc_conv_app_nth)
  moreover have "drop (Suc k) cs' = drop (Suc k) cs"
    by (simp add: cs'_def)
  moreover have "drop k cs = cs ! k # drop (Suc k) cs"
    using k by (simp add: Cons_nth_drop_Suc)
  moreover have "[k..<length cs] = k # [Suc k..<length cs]"
    using k by (simp add: upt_rec)
  ultimately show ?case
    using compress_task_good [of P cs k] assms(1) k
    by (simp add: len cs'_def [symmetric])
qed

lemma write_chunks_good:
  assumes "\<forall>c \<in> set cs. processed c" and "\<forall>p. can_create P p"
  shows "write_chunks P output_dir filename file_size num_chunks i cs
           = (map (\<lambda>(j, c). record_of P output_dir filename file_size num_chunks j c)
                (zip [i..<i + length cs] cs), None)"
  using assms(1)
proof (induction cs arbitrary: i)
  case Nil
  then show ?case by simp
next
  case (Cons c cs)
  have "[i..<i + length (c # cs)] = i # [Suc i..<Suc i + length cs]"
    by (simp add: upt_rec)
  then show ?case
    using Cons assms(2) by (simp add: record_of_def Let_def)
qed

lemma ceil_div_le_iff: "0 < c \<Longrightarrow> (ceil_div s c \<le> m) = (s \<le> m * c)"
proof -
  assume c: "0 < c"
  have "(ceil_div s c \<le> m) = ((s + c - 1) div c < Suc m)"
    by (simp add: ceil_div_def less_Suc_eq_le)
  also have "\<dots> = (s + c - 1 < Suc m * c)"
    using c by (simp add: div_less_iff_less_mult)
  also have "\<dots> = (s \<le> m * c)"
    using c by auto
  finally show ?thesis .
qed

lemma compress_chunks_good:
  assumes "0 < hardware_concurrency P" and "\<forall>x. zlib_compress2 P x \<noteq> None"
    and "0 < c" and "length content + c < 2 ^ 64"
  shows "compress_chunks P c content = Inr (compressed_chunks P c content)"
proof -
  define n where "n = ceil_div (length content) c"
  have n: "num_chunks_of c (length content) = n"
    using assms by (simp add: num_chunks_of_small n_def ceil_div_def)
  have rd: "read_chunks c (length content) (content, True) [0..<n]
              = Some (map (file_chunk c content) [0..<n])"
    using read_chunks_good [of c content n 0] assms by (simp add: n_def ceil_div_def)
  have "run_tasks (map (compress_task P) [0..<length (map (file_chunk c content) [0..<n])])
          (map (file_chunk c content) [0..<n])
        = Inr (take 0 (map (file_chunk c content) [0..<n])
                @ map (compressed_chunk P) (drop 0 (map (file_chunk c content) [0..<n])))"
    by (rule run_compress_tasks) (use assms in auto)
  then have "run_tasks (map (compress_task P) [0..<n]) (map (file_chunk c content) [0..<n])
        = Inr (compressed_chunks P c content)"
    by (simp add: compressed_chunks_def n_def comp_def)
  with assms(1)
  have "run_pool P (map (compress_task P) [0..<n]) (map (file_chunk c content) [0..<n])
        = Inr (compressed_chunks P c content)"
    by (rule run_pool_Inr)
  then show ?thesis
    using assms(3) n rd by (simp add: compress_chunks_def Let_def)
qed

lemma open_file_exists: "open_file fs p = Some c \<Longrightarrow> file_exists fs p"
  by (auto simp: open_file_def file_exists_def dest: map_of_SomeD intro: rev_image_eqI)

lemma create_directories_files:
  "create_directories fs d = Inr fs1 \<Longrightarrow> files fs1 = files fs"
  by (auto simp: create_directories_def split: if_splits)

lemma split_compress_good:
  assumes "0 < hardware_concurrency P" and "\<forall>x. zlib_compress2 P x \<noteq> None"
    and "\<forall>p. can_create P p"
    and "0 < c" and "length content + c < 2 ^ 64"
  shows "split_compress P c output_dir filename content
           = (chunk_records P c filename output_dir content, None)"
proof -
  have pr: "\<forall>x \<in> set (compressed_chunks P c content). processed x"
    by (auto simp: compressed_chunks_def compressed_chunk_def)
  have len: "length (compressed_chunks P c content) = ceil_div (length content) c"
    by (simp add: compressed_chunks_def)
  have wr: "write_chunks P output_dir filename (length content)
              (ceil_div (length content) c) 0 (compressed_chunks P c content)
            = (chunk_records P c filename output_dir content, None)"
    unfolding write_chunks_good [OF pr assms(3)]
    by (simp add: len chunk_records_def compressed_chunks_def zip_map2 zip_same_conv_map comp_def)
  show ?thesis
    using compress_chunks_good [OF assms(1,2,4,5)] wr
    by (simp add: split_compress_def len)
qed

lemma compress_file_pipeline:
  assumes "open_file fs input_path = Some content"
    and "create_directories fs output_dir = Inr fs1"
    and "compress_chunks P c content = Inr chunks"
  shows "compress_file P c fs input_path output_dir
           = (write_files fs1 (fst (split_compress P c output_dir (path_filename input_path) content)),
              pool_scope_exit (snd (split_compress P c output_dir (path_filename input_path) content)))"
proof -
  have op: "open_file fs1 input_path = Some content"
    using assms(1) create_directories_files [OF assms(2)] by (simp add: open_file_def)
  show ?thesis
    using open_file_exists [OF assms(1)] assms(2,3) op
    by (simp add: compress_file_def split_compress_def Let_def)
qed

lemma compress_file_before_barrier:
  assumes "open_file fs input_path = Some content"
    and "create_directories fs output_dir = Inr fs1"
    and "compress_chunks P c content = Inl e"
  shows "compress_file P c fs input_path output_dir = (fs1, Some e)"
proof -
  have op: "open_file fs1 input_path = Some content"
    using assms(1) create_directories_files [OF assms(2)] by (simp add: open_file_def)
  show ?thesis
    using open_file_exists [OF assms(1)] assms(2,3) op
    by (simp add: compress_file_def)
qed

lemma compress_file_good:
  assumes "0 < hardware_concurrency P" and "\<forall>x. zlib_compress2 P x \<noteq> None"
    and "\<forall>p. can_create P p"
    and "0 < c" and "length content + c < 2 ^ 64"
    and "open_file fs input_path = Some content"
    and "create_directories fs output_dir = Inr fs1"
  shows "compress_file P c fs input_path output_dir
           = (write_files fs1
                (chunk_records P c (path_filename input_path) output_dir content),
              Some (Undefined (PoolDestroyedTwice None)))"
  unfolding compress_file_pipeline [OF assms(6,7) compress_chunks_good [OF assms(1,2,4,5)]]
  by (simp add: split_compress_good [OF assms(1-5)])

subsection \<open>The reassembly writes the chunks' data in order\<close>

lemma push_bytes_concat:
  "push_bytes d (buffer, out) = (b', o') \<Longrightarrow> o' @ b' = out @ buffer @ d"
proof (induction d arbitrary: buffer out)
  case Nil
  then show ?case by simp
next
  case (Cons x d)
  then show ?case
    by (cases "BUFFER_SIZE \<le> length (buffer @ [x])") (auto dest: Cons.IH)
qed

lemma reassemble_processed:
  "\<forall>c \<in> set cs. processed c \<Longrightarrow>
   reassemble cs (buffer, out) = (out @ buffer @ concat (map data cs), None)"
proof (induction cs arbitrary: buffer out)
  case Nil
  then show ?case by simp
next
  case (Cons c cs)
  obtain b' o' where p: "push_bytes (data c) (buffer, out) = (b', o')"
    by (cases "push_bytes (data c) (buffer, out)")
  have "reassemble cs (b', o') = (o' @ b' @ concat (map data cs), None)"
    using Cons by simp
  moreover have "o' @ b' = out @ buffer @ data c"
    using p by (rule push_bytes_concat)
  ultimately show ?case
    using Cons.prems p by (simp del: append_assoc add: append_assoc [symmetric])
qed

lemma reassemble_unprocessed_head:
  "\<not> processed c \<Longrightarrow> reassemble (c # cs) (buffer, out) = (out, Some (Error ChunkDecompressionFailed))"
  by simp

subsection \<open>Claim C9: the task of index \<open>i\<close> reads the file at position \<open>i\<close>\<close>




lemma discover_files_cong: "files fs' = files fs \<Longrightarrow> discover fs' d = discover fs d"
  by (simp add: discover_def directory_iterator_def)

lemma create_directories_dirs:
  "create_directories fs d = Inr fs1 \<Longrightarrow> d \<in> set (dirs fs1)"
  by (auto simp: create_directories_def split: if_splits)

lemma split_compress_empty:
  assumes "0 < c" and "c < 2 ^ 64"
  shows "split_compress P c output_dir filename [] = ([], None)"
proof -
  have "size_sub (size_add 0 c) 1 = c - 1"
    using assms by (simp add: size_add_def size_sub_small)
  then have "num_chunks_of c 0 = 0"
    using assms by (simp add: num_chunks_of_def)
  then show ?thesis
    using assms by (simp add: split_compress_def compress_chunks_def run_pool_def)
qed

subsection \<open>Claim C10: an empty input file\<close>

lemma empty_file_pipeline:
  assumes "open_file fs input_path = Some []"
    and "0 < chunk_size" and "chunk_size < 2 ^ 64"
    and "create_directories fs output_dir = Inr fs1"
    and "discover fs output_dir = []"
  shows "num_chunks_of chunk_size 0 = 0
     \<and> split_compress P chunk_size output_dir (path_filename input_path) [] = ([], None)
     \<and> compress_file P chunk_size fs input_path output_dir
         = (fs1, Some (Undefined (PoolDestroyedTwice None)))
     \<and> output_dir \<in> set (dirs fs1) \<and> files fs1 = files fs
     \<and> decompress_file P' fs1 output_dir output_path = (fs1, Some (Error NoChunkFiles))"
proof -
  have f: "files fs1 = files fs"
    using assms(4) by (rule create_directories_files)
  have d: "output_dir \<in> set (dirs fs1)"
    using assms(4) by (rule create_directories_dirs)
  have "size_sub (size_add 0 chunk_size) 1 = chunk_size - 1"
    using assms(2,3) by (simp add: size_add_def size_sub_small)
  then have n: "num_chunks_of chunk_size 0 = 0"
    using assms(2) by (simp add: num_chunks_of_def)
  have s: "split_compress P chunk_size output_dir (path_filename input_path) [] = ([], None)"
    using assms(2,3) by (rule split_compress_empty)
  have k: "compress_chunks P chunk_size [] = Inr []"
    using assms(2) n by (simp add: compress_chunks_def run_pool_def)
  have c: "compress_file P chunk_size fs input_path output_dir
             = (fs1, Some (Undefined (PoolDestroyedTwice None)))"
    unfolding compress_file_pipeline [OF assms(1,4) k] s by (simp add: write_files_def)
  have "discover fs1 output_dir = []"
    using assms(5) discover_files_cong [OF f] by simp
  then have "decompress_file P' fs1 output_dir output_path = (fs1, Some (Error NoChunkFiles))"
    using d by (simp add: decompress_file_def)
  with n s c d f show ?thesis
    by simp
qed

text \<open>
  C10 says that for an existing input file of size 0 \<open>compress_file\<close> computes 0 chunks,
  creates the output directory, writes no chunk record and returns successfully, and that
  \<open>decompress_file\<close> on that directory then fails with the no-chunks-found error. The
  count, the directory, the absence of records and the later error are as claimed. The
  call does not return: at the end of the function the pool, destroyed by hand after the
  (empty) submission loop, is destroyed a second time.
\<close>

theorem empty_file_compress_does_not_return:
  "num_chunks_of CHUNK_SIZE 0 = 0
   \<and> compress_file P CHUNK_SIZE empty_input ''empty.bin'' ''out''
       = (empty_input\<lparr>dirs := [''out'']\<rparr>, Some (Undefined (PoolDestroyedTwice None)))
   \<and> files (empty_input\<lparr>dirs := [''out'']\<rparr>) = files empty_input
   \<and> decompress_file P' (empty_input\<lparr>dirs := [''out'']\<rparr>) ''out'' ''restored.bin''
       = (empty_input\<lparr>dirs := [''out'']\<rparr>, Some (Error NoChunkFiles))"
proof -
  have 1: "open_file empty_input ''empty.bin'' = Some []"
    by (simp add: open_file_def empty_input_def)
  have 2: "0 < CHUNK_SIZE" and 3: "CHUNK_SIZE < 2 ^ 64"
    by (simp_all add: CHUNK_SIZE_def)
  have 4: "create_directories empty_input ''out'' = Inr (empty_input\<lparr>dirs := [''out'']\<rparr>)"
    by (simp add: create_directories_def empty_input_def)
  have 5: "discover empty_input ''out'' = []"
    by (simp add: discover_def directory_iterator_def in_directory_def empty_input_def)
  show ?thesis
    using empty_file_pipeline [OF 1 2 3 4 5, of P P' "''restored.bin''"]
    by simp
qed

lemma read_chunks_fresh:
  "read_chunks c s st is = Some cs \<Longrightarrow> length cs = length is \<and> (\<forall>x \<in> set cs. \<not> processed x)"
proof (induction "is" arbitrary: st cs)
  case Nil
  then show ?case by simp
next
  case (Cons i "is")
  then show ?case
    by (fastforce simp: new_chunk_def split: option.splits prod.splits)
qed

lemma compress_task_Inr:
  assumes "compress_task P k cs = Inr cs'"
  shows "k < length cs \<and> (\<exists>z. cs' = cs[k := (cs ! k)\<lparr>compressed_data := z, processed := True\<rparr>])"
  using assms
  by (auto simp: compress_task_def split: if_splits sum.splits)

lemma run_tasks_Cons_Inr:
  "run_tasks (t # ts) st = Inr st' \<Longrightarrow> \<exists>st1. t st = Inr st1 \<and> run_tasks ts st1 = Inr st'"
  by (auto split: sum.splits error.splits)

lemma run_compress_tasks_processed:
  assumes "run_tasks (map (compress_task P) [k..<length cs]) cs = Inr cs'"
    and "\<forall>j<k. processed (cs ! j)" and "k \<le> length cs"
  shows "length cs' = length cs \<and> (\<forall>j<length cs. processed (cs' ! j))"
  using assms
proof (induction "length cs - k" arbitrary: k cs)
  case 0
  then show ?case by simp
next
  case (Suc d)
  then have k: "k < length cs" by simp
  then have "[k..<length cs] = k # [Suc k..<length cs]"
    by (simp add: upt_rec)
  with Suc.prems(1)
  have "run_tasks (compress_task P k # map (compress_task P) [Suc k..<length cs]) cs = Inr cs'"
    by (simp del: run_tasks.simps)
  from run_tasks_Cons_Inr [OF this]
  obtain cs1 where t: "compress_task P k cs = Inr cs1"
    and r: "run_tasks (map (compress_task P) [Suc k..<length cs]) cs1 = Inr cs'"
    by blast
  from compress_task_Inr [OF t] obtain z
    where cs1: "cs1 = cs[k := (cs ! k)\<lparr>compressed_data := z, processed := True\<rparr>]"
    by blast
  have len: "length cs1 = length cs"
    by (simp add: cs1)
  have pre: "\<forall>j<Suc k. processed (cs1 ! j)"
    using Suc.prems(2) k by (auto simp: cs1 nth_list_update less_Suc_eq)
  have "length cs' = length cs1 \<and> (\<forall>j<length cs1. processed (cs' ! j))"
    using Suc.hyps(2) k r pre len by (intro Suc.hyps(1)) auto
  then show ?case
    by (simp add: len)
qed

lemma compress_chunks_unprocessed:
  assumes "compress_chunks P c content = Inr chunks" and "\<exists>x \<in> set chunks. \<not> processed x"
  shows "\<exists>x xs. chunks = x # xs \<and> \<not> processed x"
proof -
  define n where "n = num_chunks_of c (length content)"
  from assms(1) obtain cs0 where c: "c \<noteq> 0"
    and rd: "read_chunks c (length content) (content, True) [0..<n] = Some cs0"
    and rp: "run_pool P (map (compress_task P) [0..<n]) cs0 = Inr chunks"
    by (auto simp: compress_chunks_def Let_def n_def split: if_splits option.splits)
  from read_chunks_fresh [OF rd] have len: "length cs0 = n"
    and fresh: "\<forall>x \<in> set cs0. \<not> processed x"
    by simp_all
  have "hardware_concurrency P = 0"
  proof (rule ccontr)
    assume "hardware_concurrency P \<noteq> 0"
    with rp have "run_tasks (map (compress_task P) [0..<length cs0]) cs0 = Inr chunks"
      by (simp add: run_pool_done len)
    from run_compress_tasks_processed [OF this]
    have "length chunks = length cs0" and "\<forall>j<length cs0. processed (chunks ! j)"
      by simp_all
    then have "\<forall>x \<in> set chunks. processed x"
      by (auto simp: in_set_conv_nth)
    with assms(2) show False by blast
  qed
  with rp have "chunks = cs0"
    by (simp add: run_pool_def)
  with fresh assms(2) show ?thesis
    by (cases chunks) auto
qed

subsection \<open>Claim C6: an unset completion flag after the drain\<close>

text \<open>
  When the pool has been drained and the flag of some chunk is unset, the writing loop
  throws "Chunk processing failed" at chunk 0, before it has written a record, and the
  exception leaves the function through the second destruction of the pool.
\<close>

lemma unset_flag_pipeline:
  assumes "open_file fs input_path = Some content"
    and "create_directories fs output_dir = Inr fs1"
    and "compress_chunks P chunk_size content = Inr chunks"
    and "\<exists>c \<in> set chunks. \<not> processed c"
  shows "split_compress P chunk_size output_dir (path_filename input_path) content
           = ([], Some (Error ChunkProcessingFailed))
     \<and> compress_file P chunk_size fs input_path output_dir
           = (fs1, Some (Undefined (PoolDestroyedTwice (Some ChunkProcessingFailed))))
     \<and> files fs1 = files fs"
proof -
  from compress_chunks_unprocessed [OF assms(3,4)] obtain x xs
    where x: "chunks = x # xs" "\<not> processed x"
    by blast
  have s: "split_compress P chunk_size output_dir (path_filename input_path) content
           = ([], Some (Error ChunkProcessingFailed))"
    using assms(3) x by (simp add: split_compress_def)
  have f: "files fs1 = files fs"
    using assms(2) by (rule create_directories_files)
  have "compress_file P chunk_size fs input_path output_dir
           = (fs1, Some (Undefined (PoolDestroyedTwice (Some ChunkProcessingFailed))))"
    unfolding compress_file_pipeline [OF assms(1,2,3)] s by (simp add: write_files_def)
  with s f show ?thesis by simp
qed

lemma compress_chunks_no_workers:
  "compress_chunks (reference_platform 0) 2 [1, 2, 3]
     = Inr [new_chunk\<lparr>index := 0, data := [1, 2]\<rparr>, new_chunk\<lparr>index := 1, data := [3]\<rparr>]"
proof -
  have "read_chunks 2 (length [1, 2, 3 :: byte]) (drop (0 * 2) [1, 2, 3], True) [0..<2]
          = Some (map (file_chunk 2 [1, 2, 3]) [0..<2])"
    by (rule read_chunks_good) simp_all
  then show ?thesis
    by (simp add: compress_chunks_def num_chunks_of_small run_pool_def reference_platform_def
        file_chunk_def upt_rec)
qed

text \<open>
  C6 says that when a completion flag is unset after the drain the pipeline fails with
  \<open>ChunkProcessingError\<close> before any chunk record is written. A flag is unset after the
  drain only on a host whose \<^verbatim>\<open>hardware_concurrency()\<close> is 0. There the \<^verbatim>\<open>throw\<close> is
  reached before any record is written and the files on disk are those from before the
  call, but the error is not delivered: the exception unwinds through the pool that has
  been destroyed by hand, and the call ends in its second destruction.
\<close>

theorem unset_flag_error_is_not_delivered:
  "compress_chunks (reference_platform 0) 2 [1, 2, 3]
     = Inr [new_chunk\<lparr>index := 0, data := [1, 2]\<rparr>, new_chunk\<lparr>index := 1, data := [3]\<rparr>]
   \<and> split_compress (reference_platform 0) 2 ''out'' ''a.bin'' [1, 2, 3]
       = ([], Some (Error ChunkProcessingFailed))
   \<and> compress_file (reference_platform 0) 2 small_input ''a.bin'' ''out''
       = (small_input\<lparr>dirs := [''out'']\<rparr>,
          Some (Undefined (PoolDestroyedTwice (Some ChunkProcessingFailed))))
   \<and> files (small_input\<lparr>dirs := [''out'']\<rparr>) = files small_input"
proof -
  have 1: "open_file small_input ''a.bin'' = Some [1, 2, 3]"
    by (simp add: open_file_def small_input_def)
  have 2: "create_directories small_input ''out'' = Inr (small_input\<lparr>dirs := [''out'']\<rparr>)"
    by (simp add: create_directories_def small_input_def)
  have 4: "\<exists>c \<in> set [new_chunk\<lparr>index := 0, data := [1, 2]\<rparr>, new_chunk\<lparr>index := 1, data := [3 :: byte]\<rparr>].
             \<not> processed c"
    by (simp add: new_chunk_def)
  have "path_filename ''a.bin'' = ''a.bin''"
    by (simp add: path_filename_def)
  with unset_flag_pipeline [OF 1 2 compress_chunks_no_workers 4] compress_chunks_no_workers
  show ?thesis
    by simp
qed

text \<open>
  The writing loop tests the flag of chunk \<open>i\<close> when it reaches it, after the records of the
  chunks before it have been written. On a vector whose first flag is set and whose second
  is not it would write one record and then fail; the drain never leaves such a vector
  (\<open>compress_chunks_unprocessed\<close>).
\<close>

lemma write_chunks_checks_flag_per_chunk:
  assumes "processed c" and "\<not> processed c'" and "can_create P (chunk_filename output_dir i n)"
  shows "write_chunks P output_dir filename s n i (c # c' # cs)
           = ([(chunk_filename output_dir i n,
                chunk_record (chunk_metadata P filename s n i c) filename (compressed_data c))],
              Some (Error ChunkProcessingFailed))"
  using assms by (simp add: Let_def)

lemma digit_cases:
  "d < 10 \<Longrightarrow> d = 0 \<or> d = 1 \<or> d = 2 \<or> d = 3 \<or> d = 4 \<or> d = 5 \<or> d = 6 \<or> d = 7 \<or> d = 8 \<or> d = (9::nat)"
  by arith

lemma of_char_digit: "d < 10 \<Longrightarrow> of_char (digit d) = 48 + d"
  using digit_cases [of d] by (auto simp: digit_def)

lemma digit_in_digits: "d < 10 \<Longrightarrow> digit d \<in> set ''0123456789''"
  unfolding digit_def by (rule nth_mem) simp

lemma string_value_to_string: "string_value (to_string n) = n"
proof (induction n rule: to_string.induct)
  case (1 n)
  show ?case
  proof (cases "n < 10")
    case True
    then show ?thesis
      by (simp add: to_string.simps [of n] string_value_def of_char_digit)
  next
    case False
    then have "string_value (to_string (n div 10)) = n div 10"
      using 1 by simp
    then show ?thesis
      using False by (simp add: to_string.simps [of n] string_value_def of_char_digit)
  qed
qed

lemma to_string_inject: "to_string m = to_string n \<Longrightarrow> m = n"
  by (metis string_value_to_string)

lemma to_string_digits: "set (to_string n) \<subseteq> set ''0123456789''"
proof (induction n rule: to_string.induct)
  case (1 n)
  show ?case
  proof (cases "n < 10")
    case True
    then show ?thesis
      using digit_in_digits [of n] by (simp add: to_string.simps [of n])
  next
    case False
    then show ?thesis
      using 1 digit_in_digits [of "n mod 10"] by (simp add: to_string.simps [of n])
  qed
qed

lemma chunk_filename_inject:
  assumes "chunk_filename d i n = chunk_filename d j n" and "i + 1 < 2 ^ 64" and "j + 1 < 2 ^ 64"
  shows "i = j"
proof -
  have "to_string (i + 1) @ (''_of_'' @ to_string n @ ''.dchunk'')
          = to_string (j + 1) @ (''_of_'' @ to_string n @ ''.dchunk'')"
    using assms by (simp add: chunk_filename_def size_add_small)
  then have "to_string (i + 1) = to_string (j + 1)"
    by (simp only: append_same_eq)
  then show ?thesis
    by (auto dest: to_string_inject)
qed

lemma open_file_write_file:
  "open_file (write_file fs w) q = (if q = fst w then Some (snd w) else open_file fs q)"
proof -
  have "map_of (write_entry fl p c) q = (if q = p then Some c else map_of fl q)" for fl p c
    by (induction fl p c rule: write_entry.induct) auto
  then show ?thesis
    by (simp add: open_file_def write_file_def)
qed

lemma write_files_snoc: "write_files fs (ws @ [w]) = write_file (write_files fs ws) w"
  by (simp add: write_files_def)

lemma open_file_write_files:
  "distinct (map fst ws) \<Longrightarrow> (p, v) \<in> set ws \<Longrightarrow> open_file (write_files fs ws) p = Some v"
proof (induction ws rule: rev_induct)
  case Nil
  then show ?case by simp
next
  case (snoc w ws)
  then show ?case
    by (cases w) (auto simp: write_files_snoc open_file_write_file image_iff)
qed

lemma open_file_write_files_other:
  "p \<notin> set (map fst ws) \<Longrightarrow> open_file (write_files fs ws) p = open_file fs p"
  by (induction ws rule: rev_induct) (auto simp: write_files_snoc open_file_write_file write_files_def)

lemma dirs_write_files [simp]: "dirs (write_files fs ws) = dirs fs"
  by (induction ws rule: rev_induct) (auto simp: write_files_snoc write_file_def write_files_def)

lemma concat_chunks:
  "concat (map (\<lambda>i. take c (drop (i * c) xs)) [0..<n]) = take (n * c) xs"
proof (induction n)
  case 0
  then show ?case by simp
next
  case (Suc n)
  have "take (n * c) xs @ take c (drop (n * c) xs) = take (n * c + c) xs"
    by (simp add: take_add)
  with Suc show ?case
    by (simp add: add.commute)
qed

lemma ceil_div_covers: "0 < c \<Longrightarrow> s \<le> ceil_div s c * c"
  using ceil_div_le_iff [of c s "ceil_div s c"] by simp

lemma concat_file_chunks:
  "0 < c \<Longrightarrow> concat (map (\<lambda>i. take c (drop (i * c) xs)) [0..<ceil_div (length xs) c]) = xs"
  using ceil_div_covers [of c "length xs"] by (simp add: concat_chunks)

lemma sum_chunk_lengths:
  assumes "0 < c"
  shows "(\<Sum>i\<leftarrow>[0..<ceil_div (length xs) c]. length (take c (drop (i * c) xs))) = length xs"
proof -
  have "length (concat (map (\<lambda>i. take c (drop (i * c) xs)) [0..<ceil_div (length xs) c])) = length xs"
    using assms by (simp only: concat_file_chunks)
  then show ?thesis
    by (simp add: length_concat comp_def)
qed

lemma unat_of_nat_64: "n < 2 ^ 64 \<Longrightarrow> unat (of_nat n :: 64 word) = n"
  by (simp add: unat_of_nat)

lemma unat_of_nat_32: "n < 2 ^ 32 \<Longrightarrow> unat (of_nat n :: 32 word) = n"
  by (simp add: unat_of_nat)

lemma decode_record_of:
  "decode_metadata (snd (record_of P d fn s n i c)) = chunk_metadata P fn s n i c"
  by (simp add: record_of_def chunk_record_def chunk_metadata_def decode_encode_metadata)

lemma data_compressed_file_chunk [simp]:
  "data (compressed_chunk P (file_chunk c xs i)) = take c (drop (i * c) xs)"
  by (simp add: compressed_chunk_def file_chunk_def)

lemma chunk_record_size:
  assumes "length content < 2 ^ 64"
  shows "unat (uncompressed_chunk_size (chunk_metadata P fn s n i (compressed_chunk P (file_chunk c content i))))
           = min c (length content - i * c)"
proof -
  have "length (take c (drop (i * c) content)) < 2 ^ 64"
    using assms by simp
  then show ?thesis
    by (simp add: chunk_metadata_def unat_of_nat_64 del: length_take length_drop) simp
qed

subsection \<open>Claim C4: the number of chunks and their sizes\<close>

text \<open>
  C4. For an input of \<open>S\<close> bytes compressed with chunk size \<open>C\<close>, the pipeline writes
  \<open>\<lceil>S / C\<rceil>\<close> chunk records (the least \<open>m\<close> with \<open>S \<le> m * C\<close>), the record of index
  \<open>i\<close> carries \<open>uncompressed_chunk_size = min C (S - i * C)\<close>, and these fields add up to
  \<open>S\<close>.
\<close>

theorem chunk_count_and_sizes:
  assumes "0 < hardware_concurrency P" and "\<forall>x. zlib_compress2 P x \<noteq> None"
    and "\<forall>p. can_create P p"
    and "0 < chunk_size" and "length content + chunk_size < 2 ^ 64"
  shows "\<exists>records.
           split_compress P chunk_size output_dir filename content = (records, None)
         \<and> length records = (length content + chunk_size - 1) div chunk_size
         \<and> (\<forall>m. (length records \<le> m) = (length content \<le> m * chunk_size))
         \<and> (\<forall>i<length records.
               unat (uncompressed_chunk_size (decode_metadata (snd (records ! i))))
                 = min chunk_size (length content - i * chunk_size))
         \<and> (\<Sum>r\<leftarrow>records. unat (uncompressed_chunk_size (decode_metadata (snd r))))
               = length content"
proof -
  define records where "records = chunk_records P chunk_size filename output_dir content"
  define n where "n = ceil_div (length content) chunk_size"
  have len: "length content < 2 ^ 64"
    using assms(5) by simp
  have ok: "split_compress P chunk_size output_dir filename content = (records, None)"
    unfolding records_def using assms by (rule split_compress_good)
  have l: "length records = n"
    by (simp add: records_def chunk_records_def n_def)
  have sz: "unat (uncompressed_chunk_size (decode_metadata (snd (records ! i))))
              = min chunk_size (length content - i * chunk_size)" if "i < n" for i
    using that chunk_record_size [OF len]
    by (simp add: records_def chunk_records_def n_def decode_record_of)
  have "(\<Sum>r\<leftarrow>records. unat (uncompressed_chunk_size (decode_metadata (snd r))))
          = (\<Sum>i\<leftarrow>[0..<n]. length (take chunk_size (drop (i * chunk_size) content)))"
    using chunk_record_size [OF len]
    by (simp add: records_def chunk_records_def n_def decode_record_of comp_def min.commute)
  also have "\<dots> = length content"
    unfolding n_def using assms(4) by (rule sum_chunk_lengths)
  finally have sum: "(\<Sum>r\<leftarrow>records. unat (uncompressed_chunk_size (decode_metadata (snd r))))
          = length content" .
  have "\<forall>m. (length records \<le> m) = (length content \<le> m * chunk_size)"
    using assms(4) by (simp add: l n_def ceil_div_le_iff)
  moreover have "length records = (length content + chunk_size - 1) div chunk_size"
    by (simp add: l n_def ceil_div_def)
  ultimately show ?thesis
    using ok sz sum l by blast
qed

theorem chunk_count_and_sizes_witness:
  "\<exists>records.
      split_compress (reference_platform 1) 2 ''out'' ''a.bin'' [1, 2, 3] = (records, None)
    \<and> length records = 2
    \<and> unat (uncompressed_chunk_size (decode_metadata (snd (records ! 0)))) = 2
    \<and> unat (uncompressed_chunk_size (decode_metadata (snd (records ! 1)))) = 1
    \<and> (\<Sum>r\<leftarrow>records. unat (uncompressed_chunk_size (decode_metadata (snd r)))) = 3"
proof -
  have 1: "0 < hardware_concurrency (reference_platform 1)"
    and 2: "\<forall>x. zlib_compress2 (reference_platform 1) x \<noteq> None"
    and 3: "\<forall>p. can_create (reference_platform 1) p"
    by (simp_all add: reference_platform_def stored_compress_def)
  have 4: "0 < (2::nat)" and 5: "length [1, 2, 3 :: byte] + 2 < 2 ^ 64"
    by simp_all
  from chunk_count_and_sizes [OF 1 2 3 4 5, of "''out''" "''a.bin''"]
  obtain records where r:
    "split_compress (reference_platform 1) 2 ''out'' ''a.bin'' [1, 2, 3] = (records, None)"
    "length records = (length [1, 2, 3 :: byte] + 2 - 1) div 2"
    "\<forall>i<length records.
               unat (uncompressed_chunk_size (decode_metadata (snd (records ! i))))
                 = min 2 (length [1, 2, 3 :: byte] - i * 2)"
    "(\<Sum>r\<leftarrow>records. unat (uncompressed_chunk_size (decode_metadata (snd r))))
               = length [1, 2, 3 :: byte]"
    by blast
  from r(2) have l: "length records = 2"
    by simp
  with r(3) have "unat (uncompressed_chunk_size (decode_metadata (snd (records ! 0)))) = 2"
    and "unat (uncompressed_chunk_size (decode_metadata (snd (records ! 1)))) = 1"
    by simp_all
  with r(1,4) l show ?thesis
    by auto
qed

lemma ceil_div_le_size: "0 < c \<Longrightarrow> ceil_div s c \<le> s"
  by (simp add: ceil_div_le_iff)

lemma distinct_chunk_records:
  assumes "0 < c" and "length content < 2 ^ 64"
  shows "distinct (map fst (chunk_records P c fn d content))"
proof -
  define n where "n = ceil_div (length content) c"
  have n: "n < 2 ^ 64"
    using ceil_div_le_size [OF assms(1), of "length content"] assms(2) by (simp add: n_def)
  have "inj_on (\<lambda>i. chunk_filename d i n) {0..<n}"
  proof (rule inj_onI)
    fix i j assume "i \<in> {0..<n}" "j \<in> {0..<n}" "chunk_filename d i n = chunk_filename d j n"
    then show "i = j"
      using n by (intro chunk_filename_inject [of d i n j]) auto
  qed
  then have "distinct (map (\<lambda>i. chunk_filename d i n) [0..<n])"
    by (simp add: distinct_map)
  then show ?thesis
    by (simp add: chunk_records_def record_of_def n_def comp_def)
qed

lemma length_encode_chunk_metadata [simp]:
  "length (encode_metadata (chunk_metadata P fn s n i c)) = 48"
  by (simp add: length_encode_metadata chunk_metadata_def)

subsection \<open>Claim C8: the bytes and the name of a chunk record\<close>



lemma field_take: "off + n \<le> k \<Longrightarrow> field off n (take k bs) = field off n bs"
  by (simp add: field_def drop_take min_def)

lemma decode_metadata_take: "decode_metadata (take 48 bs) = decode_metadata bs"
  by (simp add: decode_metadata_def field_take)

lemma load_chunks_keeps_empty:
  assumes "load_chunks fs ps chunks = Inr chunks'"
    and "j < length chunks" and "compressed_data (chunks ! j) = []"
    and "\<forall>c \<in> set chunks. \<not> processed c"
    and "\<forall>p \<in> set ps. \<forall>content. open_file fs p = Some content
           \<longrightarrow> unat (chunk_index (decode_metadata content)) \<noteq> j"
  shows "length chunks' = length chunks \<and> compressed_data (chunks' ! j) = []
           \<and> (\<forall>c \<in> set chunks'. \<not> processed c)"
  using assms
proof (induction ps arbitrary: chunks)
  case Nil
  then show ?case by simp
next
  case (Cons p ps)
  from Cons.prems(1) obtain content where o: "open_file fs p = Some content"
    by (auto split: option.splits)
  define metadata where "metadata = decode_metadata content"
  define k where "k = unat (chunk_index metadata)"
  define v where "v = read_into (fst (sread (unat (compressed_size metadata))
      (snd (sread (unat (filename_length metadata)) (snd (sread sizeof_metadata (content, True)))))))
      (resize (unat (compressed_size metadata)) (compressed_data (chunks ! k)))"
  define chunks1 where "chunks1 = chunks[k := (chunks ! k)\<lparr>index := k, compressed_data := v\<rparr>]"
  have long: "\<not> length content < 48"
    using Cons.prems(1) o by (auto simp: sizeof_metadata_def Let_def split: if_splits)
  then have h: "fst (sread sizeof_metadata (content, True)) = take 48 content"
    by (simp add: sizeof_metadata_def)
  have md: "decode_metadata (fst (sread sizeof_metadata (content, True))) = metadata"
    by (simp only: h decode_metadata_take metadata_def)
  have kj: "k \<noteq> j"
    using Cons.prems(5) o by (simp add: k_def metadata_def)
  have step: "k < length chunks \<and> load_chunks fs ps chunks1 = Inr chunks'"
    using Cons.prems(1) o long md
    by (simp add: Let_def k_def v_def chunks1_def sizeof_metadata_def split: if_splits del: sread.simps)
  have "\<forall>c \<in> set chunks1. \<not> processed c"
  proof
    fix c assume "c \<in> set chunks1"
    then have "c \<in> insert ((chunks ! k)\<lparr>index := k, compressed_data := v\<rparr>) (set chunks)"
      using set_update_subset_insert [of chunks k] by (auto simp: chunks1_def)
    then show "\<not> processed c"
      using Cons.prems(4) step by auto
  qed
  moreover have "compressed_data (chunks1 ! j) = []" "j < length chunks1"
    using kj Cons.prems(2,3) by (simp_all add: chunks1_def)
  ultimately have "length chunks' = length chunks1 \<and> compressed_data (chunks' ! j) = []
           \<and> (\<forall>c \<in> set chunks'. \<not> processed c)"
    using step Cons.prems(5) by (intro Cons.IH) auto
  then show ?case
    by (simp add: chunks1_def)
qed

lemma verify_chunk_Inr:
  assumes "verify_chunk P s i chunks = Inr chunks'"
  shows "i < length chunks \<and> zlib_inflate P (compressed_data (chunks ! i)) \<noteq> None
     \<and> (\<exists>d. chunks' = chunks[i := (chunks ! i)\<lparr>data := d, processed := True\<rparr>])"
  using assms
  by (auto simp: verify_chunk_def Let_def decompress_data_def
      split: if_splits sum.splits option.splits)

lemma decompress_tasks_stop_at_empty:
  assumes "zlib_inflate P [] = None"
    and "k \<le> j" and "j < n" and "j < length st" and "compressed_data (st ! j) = []"
  shows "\<exists>e. run_tasks (map (decompress_task P fs cf) [k..<n]) st = Inl e"
  using assms(2-5)
proof (induction "j - k" arbitrary: k st)
  case 0
  then have kj: "k = j" by simp
  have "[j..<n] = j # [Suc j..<n]"
    using 0 by (simp add: upt_rec)
  moreover have "\<exists>e. decompress_task P fs cf j st = Inl e"
  proof (cases "decompress_task P fs cf j st")
    case (Inr st')
    then have "verify_chunk P (ifstream fs (cf ! j)) j st = Inr st'"
      by (simp add: decompress_task_def split: if_splits)
    from verify_chunk_Inr [OF this] 0(5) assms(1) show ?thesis
      by simp
  qed simp
  ultimately show ?case
    by (auto simp: kj split: error.splits)
next
  case (Suc d)
  then have k: "k < j" by simp
  then have u: "[k..<n] = k # [Suc k..<n]"
    using Suc.prems by (simp add: upt_rec)
  show ?case
  proof (cases "decompress_task P fs cf k st")
    case (Inl e)
    then show ?thesis
      by (auto simp: u split: error.splits)
  next
    case (Inr st')
    then have "verify_chunk P (ifstream fs (cf ! k)) k st = Inr st'"
      by (simp add: decompress_task_def split: if_splits)
    from verify_chunk_Inr [OF this] obtain d'
      where st': "st' = st[k := (st ! k)\<lparr>data := d', processed := True\<rparr>]"
      by blast
    have "\<exists>e. run_tasks (map (decompress_task P fs cf) [Suc k..<n]) st' = Inl e"
      using Suc.hyps(2) Suc.prems k by (intro Suc.hyps(1)) (auto simp: st')
    then show ?thesis
      using Inr by (simp add: u)
  qed
qed

lemma sread_record:
  "length (magic m) = 8 \<Longrightarrow>
   sread 48 (chunk_record m fn z, True) = (encode_metadata m, (map of_char fn @ z, True))"
  by (simp add: chunk_record_def length_encode_metadata)

lemma char_of_byte_of_char [simp]: "char_of (unat (of_char c :: byte)) = c"
proof -
  have "(of_char c :: byte) = of_nat (of_char c)"
    by (simp only: of_nat_of_char)
  moreover have "of_char c < (256 :: nat)"
    by simp
  ultimately have "unat (of_char c :: byte) = of_char c"
    by (simp add: unat_of_nat del: of_nat_of_char)
  then show ?thesis by simp
qed

lemma filename_of_bytes [simp]:
  "map ((\<lambda>b. char_of (unat b)) \<circ> (of_char :: char \<Rightarrow> byte)) s = s"
  by (induction s) simp_all

lemma take_magic: "length (magic m) = 8 \<Longrightarrow> take 8 (encode_metadata m) = magic m"
  by (simp add: encode_metadata_def)

lemma sread_filename:
  "sread (length fn) (map of_char fn @ z, True) = (map of_char fn, (z, True))"
  by simp

lemma decode_encode_metadata_nil:
  "length (magic m) = 8 \<Longrightarrow> decode_metadata (encode_metadata m) = m"
  using decode_encode_metadata [of m "[]"] by simp

lemma read_first_record:
  assumes "open_file fs p = Some (chunk_record m fn z)" and "magic m = DCHUNKV1"
    and "unat (filename_length m) = length fn"
  shows "read_first fs p = Inr (m, fn)"
  using assms
  by (simp add: read_first_def ifstream_def sread_record take_magic sread_filename Let_def
      sizeof_metadata_def length_encode_metadata read_into_def decode_encode_metadata_nil
      del: sread.simps)

lemma decode_chunk_record:
  "length (magic m) = 8 \<Longrightarrow> decode_metadata (chunk_record m fn z) = m"
  by (simp add: chunk_record_def decode_encode_metadata)

subsection \<open>Claim C5: a missing chunk index\<close>

lemma read_first_outcome: "read_first fs p = Inl e \<Longrightarrow> e \<noteq> Undefined (PoolDestroyedTwice y)"
  by (auto simp: read_first_def Let_def split: if_splits)

lemma load_chunks_outcome:
  "load_chunks fs ps chunks = Inl e \<Longrightarrow> e \<noteq> Undefined (PoolDestroyedTwice y)"
proof (induction ps arbitrary: chunks)
  case Nil
  then show ?case by simp
next
  case (Cons p ps)
  then show ?case
    by (auto simp: Let_def split: option.splits if_splits)
qed

lemma decompress_task_outcome:
  "decompress_task P fs cf i st = Inl e \<Longrightarrow> thread_exit e \<noteq> Undefined (PoolDestroyedTwice y)"
  by (auto simp: decompress_task_def verify_chunk_def decompress_data_def Let_def
      split: if_splits option.splits sum.splits)

text \<open>
  C5. When the chunk directory holds no record for some index below \<open>total_chunks\<close> (the
  count taken from the first listed header), \<open>decompress_file\<close> fails: it ends with an
  error, before the end of the function body, and the only trace it can leave on disk is
  an empty output file; it never writes a truncated reassembly.
\<close>

theorem missing_chunk_fails:
  assumes "zlib_inflate P [] = None"
    and "j < claimed_total fs chunks_dir"
    and "\<forall>p \<in> set (discover fs chunks_dir). \<forall>content. open_file fs p = Some content
           \<longrightarrow> unat (chunk_index (decode_metadata content)) \<noteq> j"
  shows "snd (decompress_file P fs chunks_dir output_path) \<noteq> None
     \<and> snd (decompress_file P fs chunks_dir output_path) \<noteq> Some (Undefined (PoolDestroyedTwice None))
     \<and> (fst (decompress_file P fs chunks_dir output_path) = fs
        \<or> (\<exists>p. fst (decompress_file P fs chunks_dir output_path) = write_file fs (p, [])))"
proof (cases "chunks_dir \<in> set (dirs fs)")
  case False
  then show ?thesis by (simp add: decompress_file_def)
next
  case dir: True
  obtain p ps where cf: "discover fs chunks_dir = p # ps"
    using assms(2) by (cases "discover fs chunks_dir") (auto simp: claimed_total_def)
  show ?thesis
  proof (cases "read_first fs p")
    case (Inl e)
    then show ?thesis
      using dir cf read_first_outcome [OF Inl] by (simp add: decompress_file_def)
  next
    case (Inr r)
    obtain m fn where r: "r = (m, fn)" by (cases r)
    define n where "n = unat (total_chunks m)"
    have jn: "j < n"
      using assms(2) cf Inr r by (simp add: claimed_total_def n_def)
    define path where "path = (if output_path = [] then fn else output_path)"
    show ?thesis
    proof (cases "load_chunks fs (take n (p # ps)) (replicate n new_chunk)")
      case (Inl e)
      then show ?thesis
        using dir cf Inr r load_chunks_outcome [OF Inl] by (simp add: decompress_file_def n_def)
    next
      case loaded: (Inr loaded)
      have "set (take n (p # ps)) \<subseteq> set (discover fs chunks_dir)"
        unfolding cf by (rule set_take_subset)
      with assms(3)
      have "\<forall>q \<in> set (take n (p # ps)). \<forall>content. open_file fs q = Some content
           \<longrightarrow> unat (chunk_index (decode_metadata content)) \<noteq> j"
        by blast
      with load_chunks_keeps_empty [OF loaded, of j] jn
      have l: "length loaded = n" and e: "compressed_data (loaded ! j) = []"
        and u: "\<forall>c \<in> set loaded. \<not> processed c"
        by (simp_all add: new_chunk_def)
      show ?thesis
      proof (cases "hardware_concurrency P = 0")
        case True
        obtain c cs where lc: "loaded = c # cs"
          using l jn by (cases loaded) auto
        then have "\<not> processed c"
          using u by simp
        then have "reassemble loaded ([], []) = ([], Some (Error ChunkDecompressionFailed))"
          by (simp add: lc)
        moreover have "run_pool P (decompress_tasks P fs (p # ps) n) loaded = Inr loaded"
          using True by (rule run_pool_no_worker)
        ultimately show ?thesis
          using dir cf Inr r loaded
          by (auto simp add: decompress_file_def n_def)
      next
        case False
        then have hw: "0 < hardware_concurrency P"
          by simp
        obtain e' where "run_tasks (map (decompress_task P fs (p # ps)) [0..<n]) loaded = Inl e'"
          using decompress_tasks_stop_at_empty [OF assms(1) _ jn _ e, of 0 fs "p # ps"] jn l
          by auto
        from run_pool_Inl [OF hw this]
        obtain x where x: "run_pool P (decompress_tasks P fs (p # ps) n) loaded = Inl x"
          by (auto simp: decompress_tasks_def)
        from run_pool_outcome [OF hw x]
        have "x \<noteq> Undefined (PoolDestroyedTwice None)"
          using decompress_task_outcome by (auto simp: decompress_tasks_def)
        then show ?thesis
          using dir cf Inr r loaded x
          by (simp add: decompress_file_def n_def)
      qed
    qed
  qed
qed

lemma discover_lone_second_chunk:
  "discover lone_second_chunk ''out'' = [''out/chunk_2_of_2.dchunk'']"
  by (simp add: discover_def lone_second_chunk_def example_record_def record_of_def
      chunk_filename_def size_add_def to_string.simps digit_def directory_iterator_def
      in_directory_def path_extension_def path_filename_def)

lemma open_lone_second_chunk:
  "open_file lone_second_chunk ''out/chunk_2_of_2.dchunk''
     = Some (chunk_record
              (chunk_metadata (reference_platform 1) ''a.bin'' 3 2 1
                 (compressed_chunk (reference_platform 1) (file_chunk 2 [1, 2, 3] 1)))
              ''a.bin'' [0x78, 0x9C, 3])"
  by (simp add: open_file_def lone_second_chunk_def example_record_def record_of_def
      chunk_filename_def size_add_def to_string.simps digit_def compressed_chunk_def
      file_chunk_def reference_platform_def stored_compress_def)

theorem missing_chunk_fails_witness:
  "zlib_inflate (reference_platform 1) [] = None
   \<and> 0 < claimed_total lone_second_chunk ''out''
   \<and> snd (decompress_file (reference_platform 1) lone_second_chunk ''out'' ''b.bin'') \<noteq> None
   \<and> snd (decompress_file (reference_platform 1) lone_second_chunk ''out'' ''b.bin'')
       \<noteq> Some (Undefined (PoolDestroyedTwice None))"
proof -
  have 1: "zlib_inflate (reference_platform 1) [] = None"
    by (simp add: reference_platform_def)
  have "read_first lone_second_chunk ''out/chunk_2_of_2.dchunk''
          = Inr (chunk_metadata (reference_platform 1) ''a.bin'' 3 2 1
                   (compressed_chunk (reference_platform 1) (file_chunk 2 [1, 2, 3] 1)), ''a.bin'')"
    using open_lone_second_chunk
    by (rule read_first_record) (simp_all add: chunk_metadata_def)
  then have 2: "0 < claimed_total lone_second_chunk ''out''"
    by (simp add: claimed_total_def discover_lone_second_chunk chunk_metadata_def)
  have 3: "\<forall>p \<in> set (discover lone_second_chunk ''out''). \<forall>content.
             open_file lone_second_chunk p = Some content
               \<longrightarrow> unat (chunk_index (decode_metadata content)) \<noteq> 0"
    using open_lone_second_chunk
    by (simp add: discover_lone_second_chunk decode_chunk_record chunk_metadata_def)
  show ?thesis
    using missing_chunk_fails [OF 1 2 3, of "''b.bin''"] 1 2
    by simp
qed

lemma write_entry_fresh: "p \<notin> set (map fst fl) \<Longrightarrow> write_entry fl p c = fl @ [(p, c)]"
  by (induction fl p c rule: write_entry.induct) auto

lemma write_files_fresh:
  "distinct (map fst ws) \<Longrightarrow> set (map fst ws) \<inter> set (map fst (files fs)) = {} \<Longrightarrow>
   files (write_files fs ws) = files fs @ ws"
proof (induction ws rule: rev_induct)
  case Nil
  then show ?case by (simp add: write_files_def)
next
  case (snoc w ws)
  have "fst w \<notin> set (map fst (files fs @ ws))"
    using snoc.prems by auto
  then have "write_entry (files fs @ ws) (fst w) (snd w) = (files fs @ ws) @ [(fst w, snd w)]"
    by (rule write_entry_fresh)
  moreover have "files (write_files fs ws) = files fs @ ws"
    using snoc by simp
  ultimately show ?case
    by (simp add: write_files_snoc write_file_def)
qed

lemma ten_bytes_nth: "i < 10 \<Longrightarrow> ten_bytes ! i = of_nat i"
  using digit_cases [of i] by (auto simp: ten_bytes_def)

lemma length_ten_bytes [simp]: "length ten_bytes = 10"
  by (simp add: ten_bytes_def)

lemma ten_chunk_data: "i < 10 \<Longrightarrow> take (Suc 0) (drop i ten_bytes) = [of_nat i]"
  using digit_cases [of i] by (auto simp: ten_bytes_def)

lemma ten_payload:
  "i < 10 \<Longrightarrow>
   compressed_data (compressed_chunk (reference_platform (Suc 0)) (file_chunk (Suc 0) ten_bytes i))
     = [0x78, 0x9C, of_nat i]"
  by (simp add: compressed_chunk_def file_chunk_def reference_platform_def stored_compress_def
      ten_chunk_data)

lemma ten_names:
  "map (\<lambda>i. chunk_filename ''out'' i 10) [0..<10]
     = [''out/chunk_1_of_10.dchunk'', ''out/chunk_2_of_10.dchunk'', ''out/chunk_3_of_10.dchunk'',
        ''out/chunk_4_of_10.dchunk'', ''out/chunk_5_of_10.dchunk'', ''out/chunk_6_of_10.dchunk'',
        ''out/chunk_7_of_10.dchunk'', ''out/chunk_8_of_10.dchunk'', ''out/chunk_9_of_10.dchunk'',
        ''out/chunk_10_of_10.dchunk'']"
  by (simp add: chunk_filename_def size_add_def to_string.simps digit_def upt_rec)

lemma ten_chunks_files:
  "compress_file (reference_platform 1) 1 ten_input ''a.bin'' ''out''
     = (ten_chunks, Some (Undefined (PoolDestroyedTwice None)))"
  "dirs ten_chunks = [''out'']"
  "files ten_chunks
     = (''a.bin'', ten_bytes)
       # map (\<lambda>i. (chunk_filename ''out'' i 10, chunk_record (ten_metadata i) ''a.bin'' [0x78, 0x9C, of_nat i]))
           [0..<10]"
proof -
  have 1: "0 < hardware_concurrency (reference_platform 1)"
    and 2: "\<forall>x. zlib_compress2 (reference_platform 1) x \<noteq> None"
    and 3: "\<forall>p. can_create (reference_platform 1) p"
    by (simp_all add: reference_platform_def stored_compress_def)
  have 4: "0 < (1::nat)" and 5: "length ten_bytes + 1 < 2 ^ 64"
    by (simp_all add: ten_bytes_def)
  have 6: "open_file ten_input ''a.bin'' = Some ten_bytes"
    by (simp add: open_file_def ten_input_def)
  have 7: "create_directories ten_input ''out'' = Inr (ten_input\<lparr>dirs := [''out'']\<rparr>)"
    by (simp add: create_directories_def ten_input_def)
  have recs: "chunk_records (reference_platform 1) 1 (path_filename ''a.bin'') ''out'' ten_bytes
      = map (\<lambda>i. (chunk_filename ''out'' i 10, chunk_record (ten_metadata i) ''a.bin'' [0x78, 0x9C, of_nat i]))
           [0..<10]"
    by (simp add: chunk_records_def ceil_div_def record_of_def ten_metadata_def path_filename_def
        ten_payload)
  have c: "compress_file (reference_platform 1) 1 ten_input ''a.bin'' ''out''
      = (write_files (ten_input\<lparr>dirs := [''out'']\<rparr>)
           (map (\<lambda>i. (chunk_filename ''out'' i 10, chunk_record (ten_metadata i) ''a.bin'' [0x78, 0x9C, of_nat i]))
              [0..<10]), Some (Undefined (PoolDestroyedTwice None)))"
    using compress_file_good [OF 1 2 3 4 5 6 7] by (simp only: recs)
  have tc: "ten_chunks = write_files (ten_input\<lparr>dirs := [''out'']\<rparr>)
           (map (\<lambda>i. (chunk_filename ''out'' i 10, chunk_record (ten_metadata i) ''a.bin'' [0x78, 0x9C, of_nat i]))
              [0..<10])"
    by (simp only: ten_chunks_def c fst_conv)
  show "compress_file (reference_platform 1) 1 ten_input ''a.bin'' ''out''
     = (ten_chunks, Some (Undefined (PoolDestroyedTwice None)))"
    by (simp only: c tc)
  show "dirs ten_chunks = [''out'']"
    by (simp add: tc)
  have "files (write_files (ten_input\<lparr>dirs := [''out'']\<rparr>)
           (map (\<lambda>i. (chunk_filename ''out'' i 10, chunk_record (ten_metadata i) ''a.bin'' [0x78, 0x9C, of_nat i]))
              [0..<10]))
        = files (ten_input\<lparr>dirs := [''out'']\<rparr>)
          @ map (\<lambda>i. (chunk_filename ''out'' i 10, chunk_record (ten_metadata i) ''a.bin'' [0x78, 0x9C, of_nat i]))
              [0..<10]"
    by (rule write_files_fresh) (simp_all add: comp_def ten_names ten_input_def)
  then show "files ten_chunks
     = (''a.bin'', ten_bytes)
       # map (\<lambda>i. (chunk_filename ''out'' i 10, chunk_record (ten_metadata i) ''a.bin'' [0x78, 0x9C, of_nat i]))
           [0..<10]"
    by (simp add: tc ten_input_def)
qed

lemma discover_ten_chunks:
  "discover ten_chunks ''out''
     = [''out/chunk_10_of_10.dchunk'', ''out/chunk_1_of_10.dchunk'', ''out/chunk_2_of_10.dchunk'',
        ''out/chunk_3_of_10.dchunk'', ''out/chunk_4_of_10.dchunk'', ''out/chunk_5_of_10.dchunk'',
        ''out/chunk_6_of_10.dchunk'', ''out/chunk_7_of_10.dchunk'', ''out/chunk_8_of_10.dchunk'',
        ''out/chunk_9_of_10.dchunk'']"
  by (simp add: discover_def directory_iterator_def ten_chunks_files comp_def ten_names
      in_directory_def path_extension_def path_filename_def)

lemma length_place [simp]: "length (place fs chunks p) = length chunks"
  by (simp add: place_def Let_def)

lemma load_chunks_step:
  assumes "well_formed fs (length chunks) p"
  shows "load_chunks fs (p # ps) chunks = load_chunks fs ps (place fs chunks p)"
proof -
  from assms obtain content where o: "open_file fs p = Some content"
    and l: "48 + unat (filename_length (decode_metadata content))
             + unat (compressed_size (decode_metadata content)) \<le> length content"
    and k: "unat (chunk_index (decode_metadata content)) < length chunks"
    by (auto simp: well_formed_def split: option.splits)
  define m where "m = decode_metadata content"
  define c where "c = unat (compressed_size m)"
  define f where "f = unat (filename_length m)"
  have l': "48 + f + c \<le> length content" and k': "unat (chunk_index m) < length chunks"
    using l k by (simp_all add: m_def c_def f_def)
  have h: "sread 48 (content, True) = (take 48 content, (drop 48 content, True))"
    using l' by simp
  have md: "decode_metadata (take 48 content) = m"
    by (simp add: m_def decode_metadata_take)
  have fr: "sread f (drop 48 content, True) = (take f (drop 48 content), (drop (48 + f) content, True))"
    using l' by (simp add: add.commute)
  have pr: "sread c (drop (48 + f) content, True)
              = (take c (drop (48 + f) content), (drop c (drop (48 + f) content), True))"
    using l' by simp
  have "length (take c (drop (48 + f) content)) = c"
    using l' by simp
  then have ri: "read_into (take c (drop (48 + f) content)) (resize c old) = take c (drop (48 + f) content)" for old
    by (simp add: read_into_def resize_def)
  have "load_chunks fs (p # ps) chunks
          = load_chunks fs ps (chunks[unat (chunk_index m) := (chunks ! unat (chunk_index m))
               \<lparr>index := unat (chunk_index m), compressed_data := take c (drop (48 + f) content)\<rparr>])"
    using o k' l'
    by (simp add: sizeof_metadata_def h md fr pr ri Let_def f_def [symmetric] c_def [symmetric]
        del: sread.simps)
  also have "chunks[unat (chunk_index m) := (chunks ! unat (chunk_index m))
               \<lparr>index := unat (chunk_index m), compressed_data := take c (drop (48 + f) content)\<rparr>]
             = place fs chunks p"
    using o by (simp add: place_def Let_def m_def c_def f_def)
  finally show ?thesis .
qed

lemma load_chunks_well_formed:
  "\<forall>p \<in> set ps. well_formed fs (length chunks) p \<Longrightarrow>
   load_chunks fs ps chunks = Inr (foldl (place fs) chunks ps)"
proof (induction ps arbitrary: chunks)
  case Nil
  then show ?case by simp
next
  case (Cons p ps)
  then show ?case
    by (simp add: load_chunks_step del: load_chunks.simps)
qed

lemma verify_record:
  assumes "length (magic m) = 8" and "i < length chunks"
    and "zlib_inflate P (compressed_data (chunks ! i)) = Some d"
    and "length d \<le> unat (uncompressed_chunk_size m)"
  shows "verify_chunk P (chunk_record m fn z, True) i chunks =
           (if zlib_crc32 P d \<noteq> crc32_checksum m then Inl (Error (CrcMismatch i))
            else Inr (chunks[i := (chunks ! i)\<lparr>data := d, processed := True\<rparr>]))"
  using assms
  by (simp add: verify_chunk_def sizeof_metadata_def sread_record length_encode_metadata
      decompress_data_def calculate_crc32_def Let_def decode_encode_metadata_nil del: sread.simps)

lemma run_pool_first_task_throws:
  assumes "hardware_concurrency P = 1" and "0 < n"
    and "decompress_task P fs cf 0 st = Inl (Error e)"
  shows "run_pool P (decompress_tasks P fs cf n) st = Inl (Terminated e)"
proof -
  have "[0..<n] = 0 # [Suc 0..<n]"
    using assms(2) by (simp add: upt_rec)
  then show ?thesis
    using assms(3) by (simp add: run_pool_one_worker [OF assms(1)] decompress_tasks_def)
qed

lemma decompress_file_pool_error:
  assumes "chunks_dir \<in> set (dirs fs)" and "discover fs chunks_dir = p # ps"
    and "read_first fs p = Inr (m, fn)"
    and "load_chunks fs (take (unat (total_chunks m)) (p # ps))
           (replicate (unat (total_chunks m)) new_chunk) = Inr loaded"
    and "run_pool P (decompress_tasks P fs (p # ps) (unat (total_chunks m))) loaded = Inl e"
  shows "decompress_file P fs chunks_dir output_path = (fs, Some e)"
  using assms by (simp add: decompress_file_def)

lemma decompress_file_pool_done:
  assumes "chunks_dir \<in> set (dirs fs)" and "discover fs chunks_dir = p # ps"
    and "read_first fs p = Inr (m, fn)"
    and "load_chunks fs (take (unat (total_chunks m)) (p # ps))
           (replicate (unat (total_chunks m)) new_chunk) = Inr loaded"
    and "run_pool P (decompress_tasks P fs (p # ps) (unat (total_chunks m))) loaded = Inr chunks"
    and "\<forall>c \<in> set chunks. processed c"
    and "can_create P (if output_path = [] then fn else output_path)"
  shows "decompress_file P fs chunks_dir output_path
           = (write_file fs (if output_path = [] then fn else output_path, concat (map data chunks)),
              Some (Undefined (PoolDestroyedTwice None)))"
  using assms by (simp add: decompress_file_def reassemble_processed)

lemma ten_metadata_fields:
  assumes "i < 10"
  shows "magic (ten_metadata i) = DCHUNKV1"
    and "chunk_index (ten_metadata i) = of_nat i"
    and "total_chunks (ten_metadata i) = 10"
    and "filename_length (ten_metadata i) = 5"
    and "compressed_size (ten_metadata i) = 3"
    and "uncompressed_chunk_size (ten_metadata i) = 1"
    and "crc32_checksum (ten_metadata i) = crc32 [of_nat i]"
  using assms ten_payload [of i] ten_chunk_data [of i]
  by (simp_all add: ten_metadata_def chunk_metadata_def calculate_crc32_def
      compressed_chunk_def file_chunk_def reference_platform_def)

lemma length_chunk_record:
  "length (magic m) = 8 \<Longrightarrow> length (chunk_record m fn z) = 48 + length fn + length z"
  by (simp add: chunk_record_def length_encode_metadata)

lemma payload_chunk_record:
  "length (magic m) = 8 \<Longrightarrow> drop (48 + length fn) (chunk_record m fn z) = z"
  by (simp add: chunk_record_def length_encode_metadata)

lemma open_ten_chunks:
  assumes "i < 10"
  shows "open_file ten_chunks (chunk_filename ''out'' i 10)
           = Some (chunk_record (ten_metadata i) ''a.bin'' [0x78, 0x9C, of_nat i])"
proof -
  have "distinct (map fst (files ten_chunks))"
    by (simp add: ten_chunks_files comp_def ten_names)
  moreover have "i \<in> set [0..<10]"
    using assms by simp
  then have "(chunk_filename ''out'' i 10,
                  chunk_record (ten_metadata i) ''a.bin'' [0x78, 0x9C, of_nat i])
                 \<in> set (files ten_chunks)"
    unfolding ten_chunks_files(3) set_simps set_map by (intro insertI2 imageI)
  ultimately show ?thesis
    unfolding open_file_def by (rule map_of_is_SomeI)
qed

lemma unat_index_ten: "i < 10 \<Longrightarrow> unat (of_nat i :: 32 word) = i"
  by (simp add: unat_of_nat_32)

lemma well_formed_ten_chunks:
  assumes "i < 10"
  shows "well_formed ten_chunks 10 (chunk_filename ''out'' i 10)"
  using assms
  by (simp add: well_formed_def open_ten_chunks decode_chunk_record ten_metadata_fields
      unat_index_ten length_chunk_record)

lemma place_ten_chunks:
  assumes "i < 10"
  shows "place ten_chunks chunks (chunk_filename ''out'' i 10)
           = chunks[i := (chunks ! i)\<lparr>index := i, compressed_data := [0x78, 0x9C, of_nat i]\<rparr>]"
proof -
  have "drop (48 + length ''a.bin'') (chunk_record (ten_metadata i) ''a.bin'' [0x78, 0x9C, of_nat i])
          = [0x78, 0x9C, of_nat i]"
    using assms by (intro payload_chunk_record) (simp add: ten_metadata_fields)
  then show ?thesis
    using assms
    by (simp add: place_def open_ten_chunks decode_chunk_record ten_metadata_fields
        unat_index_ten Let_def)
qed

lemma discover_ten_chunks_indices:
  "discover ten_chunks ''out'' = map (\<lambda>i. chunk_filename ''out'' i 10) [9, 0, 1, 2, 3, 4, 5, 6, 7, 8]"
  by (simp add: discover_ten_chunks chunk_filename_def size_add_def to_string.simps digit_def)

lemma crc32_0_9: "crc32 [0] \<noteq> crc32 [9]"
  by code_simp

lemma ten_chunks_loaded:
  "load_chunks ten_chunks (take 10 (discover ten_chunks ''out'')) (replicate 10 new_chunk)
     = Inr ten_loaded"
  "length ten_loaded = 10"
  "compressed_data (ten_loaded ! 0) = [0x78, 0x9C, 0]"
proof -
  have "\<forall>p \<in> set (take 10 (discover ten_chunks ''out'')).
          well_formed ten_chunks (length (replicate 10 new_chunk)) p"
    by (simp add: discover_ten_chunks_indices well_formed_ten_chunks)
  then show "load_chunks ten_chunks (take 10 (discover ten_chunks ''out'')) (replicate 10 new_chunk)
          = Inr ten_loaded"
    unfolding ten_loaded_def by (rule load_chunks_well_formed)
  show "length ten_loaded = 10"
    by (simp add: ten_loaded_def discover_ten_chunks_indices place_ten_chunks)
  show "compressed_data (ten_loaded ! 0) = [0x78, 0x9C, 0]"
    by (simp add: ten_loaded_def discover_ten_chunks_indices place_ten_chunks)
qed

lemma ten_chunks_task_0:
  "decompress_task (reference_platform 1) ten_chunks (discover ten_chunks ''out'') 0 ten_loaded
     = Inl (Error (CrcMismatch 0))"
proof -
  have "verify_chunk (reference_platform 1)
          (chunk_record (ten_metadata 9) ''a.bin'' [0x78, 0x9C, of_nat 9], True) 0 ten_loaded
        = (if zlib_crc32 (reference_platform 1) [0] \<noteq> crc32_checksum (ten_metadata 9)
           then Inl (Error (CrcMismatch 0))
           else Inr (ten_loaded[0 := (ten_loaded ! 0)\<lparr>data := [0], processed := True\<rparr>]))"
    by (rule verify_record)
      (simp_all add: ten_metadata_fields ten_chunks_loaded reference_platform_def)
  moreover have "discover ten_chunks ''out'' ! 0 = chunk_filename ''out'' 9 10"
    by (simp add: discover_ten_chunks_indices)
  ultimately show ?thesis
    using crc32_0_9 open_ten_chunks [of 9]
    by (simp add: decompress_task_def ifstream_def discover_ten_chunks ten_metadata_fields
        reference_platform_def)
qed

lemma ten_chunks_fail:
  "decompress_file (reference_platform 1) ten_chunks ''out'' output_path
     = (ten_chunks, Some (Terminated (CrcMismatch 0)))"
proof -
  have m: "unat (total_chunks (ten_metadata 9)) = 10"
    by (simp add: ten_metadata_fields)
  have d: "discover ten_chunks ''out''
      = chunk_filename ''out'' 9 10 # map (\<lambda>i. chunk_filename ''out'' i 10) [0, 1, 2, 3, 4, 5, 6, 7, 8]"
    by (simp add: discover_ten_chunks_indices)
  have r: "read_first ten_chunks (chunk_filename ''out'' 9 10) = Inr (ten_metadata 9, ''a.bin'')"
    using open_ten_chunks [of 9]
    by (intro read_first_record) (simp_all add: ten_metadata_fields)
  have l: "load_chunks ten_chunks
             (take (unat (total_chunks (ten_metadata 9)))
                (chunk_filename ''out'' 9 10
                 # map (\<lambda>i. chunk_filename ''out'' i 10) [0, 1, 2, 3, 4, 5, 6, 7, 8]))
             (replicate (unat (total_chunks (ten_metadata 9))) new_chunk)
           = Inr ten_loaded"
    unfolding m d [symmetric] by (rule ten_chunks_loaded(1))
  have h: "hardware_concurrency (reference_platform 1) = 1"
    by (simp add: reference_platform_def)
  have p: "run_pool (reference_platform 1)
             (decompress_tasks (reference_platform 1) ten_chunks
                (chunk_filename ''out'' 9 10
                 # map (\<lambda>i. chunk_filename ''out'' i 10) [0, 1, 2, 3, 4, 5, 6, 7, 8])
                (unat (total_chunks (ten_metadata 9))))
             ten_loaded
           = Inl (Terminated (CrcMismatch 0))"
    unfolding m d [symmetric]
    by (rule run_pool_first_task_throws [OF h _ ten_chunks_task_0]) simp
  have "''out'' \<in> set (dirs ten_chunks)"
    by (simp add: ten_chunks_files)
  then show ?thesis
    using d r l p by (rule decompress_file_pool_error)
qed

lemma discover_listing_order:
  assumes "distinct (map fst (files fs))" and "distinct (map fst (files fs'))"
    and "set (files fs') = set (files fs)"
  shows "discover fs' d = discover fs d"
proof -
  have "set (map fst (files fs')) = set (map fst (files fs))"
    using assms(3) by simp
  then show ?thesis
    unfolding discover_def directory_iterator_def
    using assms(1,2)
    by (intro sorted_distinct_set_unique) (simp_all add: distinct_map_filter)
qed

lemma open_file_listing_order:
  assumes "distinct (map fst (files fs))" and "distinct (map fst (files fs'))"
    and "set (files fs') = set (files fs)"
  shows "open_file fs' = open_file fs"
proof -
  have "map_of (files fs') = map_of (files fs)"
    using assms by (simp add: map_of_inject_set)
  then show ?thesis
    by (simp add: open_file_def fun_eq_iff)
qed

lemma load_chunks_cong:
  "open_file fs' = open_file fs \<Longrightarrow> load_chunks fs' ps chunks = load_chunks fs ps chunks"
  by (induction ps arbitrary: chunks)
    (auto simp add: Let_def simp del: sread.simps split: option.splits)

lemma decompress_status_cong:
  assumes "open_file fs' = open_file fs" and "discover fs' d = discover fs d"
    and "dirs fs' = dirs fs"
  shows "snd (decompress_file P fs' d output_path) = snd (decompress_file P fs d output_path)"
proof -
  have i: "ifstream fs' = ifstream fs"
    using assms(1) by (simp add: ifstream_def fun_eq_iff)
  then have r: "read_first fs' = read_first fs"
    by (simp add: read_first_def fun_eq_iff)
  have t: "decompress_tasks P fs' = decompress_tasks P fs"
    using i by (simp add: decompress_tasks_def decompress_task_def fun_eq_iff)
  show ?thesis
    using assms(2,3) load_chunks_cong [OF assms(1)]
    by (simp add: decompress_file_def r t Let_def split: sum.splits prod.splits)
qed

lemma decompress_status_listing_order:
  assumes "distinct (map fst (files fs))" and "distinct (map fst (files fs'))"
    and "set (files fs') = set (files fs)" and "dirs fs' = dirs fs"
  shows "snd (decompress_file P fs' d output_path) = snd (decompress_file P fs d output_path)"
  using open_file_listing_order [OF assms(1-3)] discover_listing_order [OF assms(1-3)] assms(4)
  by (rule decompress_status_cong)

lemma example_metadata_0:
  "magic first_metadata = DCHUNKV1" "chunk_index first_metadata = 0"
  "total_chunks first_metadata = 2" "filename_length first_metadata = 5"
  "compressed_size first_metadata = 4" "uncompressed_chunk_size first_metadata = 2"
  "crc32_checksum first_metadata = crc32 [1, 2]"
  by (simp_all add: first_metadata_def second_metadata_def chunk_metadata_def calculate_crc32_def
      compressed_chunk_def file_chunk_def reference_platform_def stored_compress_def)

lemma example_metadata_1:
  "magic second_metadata = DCHUNKV1" "chunk_index second_metadata = 1"
  "total_chunks second_metadata = 2" "filename_length second_metadata = 5"
  "compressed_size second_metadata = 3" "uncompressed_chunk_size second_metadata = 1"
  "crc32_checksum second_metadata = crc32 [3]"
  by (simp_all add: first_metadata_def second_metadata_def chunk_metadata_def calculate_crc32_def
      compressed_chunk_def file_chunk_def reference_platform_def stored_compress_def)

lemma bad_magic_fields [simp]:
  "length (magic (bad_magic m)) = 8" "chunk_index (bad_magic m) = chunk_index m"
  "total_chunks (bad_magic m) = total_chunks m" "filename_length (bad_magic m) = filename_length m"
  "compressed_size (bad_magic m) = compressed_size m"
  "uncompressed_chunk_size (bad_magic m) = uncompressed_chunk_size m"
  "crc32_checksum (bad_magic m) = crc32_checksum m"
  by (simp_all add: bad_magic_def)

lemma second_magic_bad_files:
  "discover second_magic_bad ''out'' = [''out/chunk_1_of_2.dchunk'', ''out/chunk_2_of_2.dchunk'']"
  "open_file second_magic_bad ''out/chunk_1_of_2.dchunk''
     = Some (chunk_record first_metadata ''a.bin'' [0x78, 0x9C, 1, 2])"
  "open_file second_magic_bad ''out/chunk_2_of_2.dchunk''
     = Some (chunk_record (bad_magic second_metadata) ''a.bin'' [0x78, 0x9C, 3])"
  by (simp_all add: discover_def directory_iterator_def in_directory_def path_extension_def
      path_filename_def open_file_def second_magic_bad_def)

lemma second_magic_bad_loaded:
  "load_chunks second_magic_bad [''out/chunk_1_of_2.dchunk'', ''out/chunk_2_of_2.dchunk'']
     [new_chunk, new_chunk]
   = Inr [new_chunk\<lparr>index := 0, compressed_data := [0x78, 0x9C, 1, 2]\<rparr>,
          new_chunk\<lparr>index := 1, compressed_data := [0x78, 0x9C, 3]\<rparr>]"
proof -
  have "\<forall>p \<in> set [''out/chunk_1_of_2.dchunk'', ''out/chunk_2_of_2.dchunk''].
          well_formed second_magic_bad (length [new_chunk, new_chunk]) p"
    by (simp add: well_formed_def second_magic_bad_files decode_chunk_record length_chunk_record
        example_metadata_0 example_metadata_1)
  then have "load_chunks second_magic_bad [''out/chunk_1_of_2.dchunk'', ''out/chunk_2_of_2.dchunk'']
          [new_chunk, new_chunk]
        = Inr (foldl (place second_magic_bad) [new_chunk, new_chunk]
                 [''out/chunk_1_of_2.dchunk'', ''out/chunk_2_of_2.dchunk''])"
    by (rule load_chunks_well_formed)
  also have "foldl (place second_magic_bad) [new_chunk, new_chunk]
                 [''out/chunk_1_of_2.dchunk'', ''out/chunk_2_of_2.dchunk'']
        = [new_chunk\<lparr>index := 0, compressed_data := [0x78, 0x9C, 1, 2]\<rparr>,
           new_chunk\<lparr>index := 1, compressed_data := [0x78, 0x9C, 3]\<rparr>]"
    using payload_chunk_record [of first_metadata "''a.bin''" "[0x78, 0x9C, 1, 2]"]
      payload_chunk_record [of "bad_magic second_metadata" "''a.bin''" "[0x78, 0x9C, 3]"]
    by (simp add: place_def second_magic_bad_files decode_chunk_record
        example_metadata_0 example_metadata_1 Let_def)
  finally show ?thesis .
qed

lemma second_magic_bad_verified:
  "run_pool (reference_platform 1)
     (decompress_tasks (reference_platform 1) second_magic_bad
        [''out/chunk_1_of_2.dchunk'', ''out/chunk_2_of_2.dchunk''] 2)
     [new_chunk\<lparr>index := 0, compressed_data := [0x78, 0x9C, 1, 2]\<rparr>,
      new_chunk\<lparr>index := 1, compressed_data := [0x78, 0x9C, 3]\<rparr>]
   = Inr [new_chunk\<lparr>index := 0, compressed_data := [0x78, 0x9C, 1, 2], data := [1, 2], processed := True\<rparr>,
          new_chunk\<lparr>index := 1, compressed_data := [0x78, 0x9C, 3], data := [3], processed := True\<rparr>]"
  by (simp add: run_pool_def decompress_tasks_def decompress_task_def ifstream_def
      second_magic_bad_files upt_rec verify_record reference_platform_def
      example_metadata_0 example_metadata_1)

lemma first_magic_bad_files:
  "discover first_magic_bad ''out'' = [''out/chunk_1_of_2.dchunk'', ''out/chunk_2_of_2.dchunk'']"
  "open_file first_magic_bad ''out/chunk_1_of_2.dchunk''
     = Some (chunk_record (bad_magic first_metadata) ''a.bin'' [0x78, 0x9C, 1, 2])"
  by (simp_all add: discover_def directory_iterator_def in_directory_def path_extension_def
      path_filename_def open_file_def first_magic_bad_def)

lemma magic_bad_magic: "take 8 (chunk_record (bad_magic m) fn z) \<noteq> DCHUNKV1"
proof -
  have "take 8 (chunk_record (bad_magic m) fn z) = magic (bad_magic m)"
    by (simp add: chunk_record_def encode_metadata_def)
  then show ?thesis
    by (simp add: bad_magic_def DCHUNKV1_def)
qed

lemma read_first_bad_magic:
  "open_file fs p = Some (chunk_record (bad_magic m) fn z) \<Longrightarrow>
   read_first fs p = Inl (Error InvalidFormat)"
  using magic_bad_magic [of m fn z]
  by (simp add: read_first_def ifstream_def sizeof_metadata_def length_chunk_record Let_def)

subsection \<open>Claim C7: the magic tag of the files after the first\<close>

text \<open>
  C7 says that every header read during decompression is checked against the tag
  \<open>DCHUNKV1\<close>. The source checks the header of the first listed file only; the reads of the
  loading loop and of the tasks check nothing. A record whose tag is \<open>XCHUNKV1\<close> is refused
  in first position and accepted in second position, where the file is reassembled with its
  payload and written before the call ends in the second destruction of its pool.
\<close>

theorem bad_magic_accepted_after_first:
  "open_file second_magic_bad ''out/chunk_2_of_2.dchunk''
     = Some (chunk_record (bad_magic second_metadata) ''a.bin'' [0x78, 0x9C, 3])
   \<and> take 8 (chunk_record (bad_magic second_metadata) ''a.bin'' [0x78, 0x9C, 3]) \<noteq> DCHUNKV1
   \<and> decompress_file (reference_platform 1) second_magic_bad ''out'' ''restored.bin''
       = (write_file second_magic_bad (''restored.bin'', [1, 2, 3]),
          Some (Undefined (PoolDestroyedTwice None)))
   \<and> decompress_file (reference_platform 1) first_magic_bad ''out'' ''restored.bin''
       = (first_magic_bad, Some (Error InvalidFormat))"
proof -
  have r: "read_first second_magic_bad ''out/chunk_1_of_2.dchunk'' = Inr (first_metadata, ''a.bin'')"
    using second_magic_bad_files(2)
    by (rule read_first_record) (simp_all add: example_metadata_0)
  have n: "unat (total_chunks first_metadata) = 2"
    by (simp add: example_metadata_0)
  have l: "load_chunks second_magic_bad
             (take (unat (total_chunks first_metadata))
                [''out/chunk_1_of_2.dchunk'', ''out/chunk_2_of_2.dchunk''])
             (replicate (unat (total_chunks first_metadata)) new_chunk)
           = Inr [new_chunk\<lparr>index := 0, compressed_data := [0x78, 0x9C, 1, 2]\<rparr>,
                  new_chunk\<lparr>index := 1, compressed_data := [0x78, 0x9C, 3]\<rparr>]"
    using second_magic_bad_loaded by (simp add: n numeral_2_eq_2)
  have p: "run_pool (reference_platform 1)
             (decompress_tasks (reference_platform 1) second_magic_bad
                [''out/chunk_1_of_2.dchunk'', ''out/chunk_2_of_2.dchunk'']
                (unat (total_chunks first_metadata)))
             [new_chunk\<lparr>index := 0, compressed_data := [0x78, 0x9C, 1, 2]\<rparr>,
              new_chunk\<lparr>index := 1, compressed_data := [0x78, 0x9C, 3]\<rparr>]
           = Inr [new_chunk\<lparr>index := 0, compressed_data := [0x78, 0x9C, 1, 2], data := [1, 2], processed := True\<rparr>,
                  new_chunk\<lparr>index := 1, compressed_data := [0x78, 0x9C, 3], data := [3], processed := True\<rparr>]"
    unfolding n by (rule second_magic_bad_verified)
  have "decompress_file (reference_platform 1) second_magic_bad ''out'' ''restored.bin''
       = (write_file second_magic_bad
            (if ''restored.bin'' = [] then ''a.bin'' else ''restored.bin'',
             concat (map data
               [new_chunk\<lparr>index := 0, compressed_data := [0x78, 0x9C, 1, 2], data := [1, 2], processed := True\<rparr>,
                new_chunk\<lparr>index := 1, compressed_data := [0x78, 0x9C, 3], data := [3], processed := True\<rparr>])),
          Some (Undefined (PoolDestroyedTwice None)))"
    by (rule decompress_file_pool_done [OF _ second_magic_bad_files(1) r l p])
      (simp_all add: second_magic_bad_def reference_platform_def)
  then have a: "decompress_file (reference_platform 1) second_magic_bad ''out'' ''restored.bin''
       = (write_file second_magic_bad (''restored.bin'', [1, 2, 3]),
          Some (Undefined (PoolDestroyedTwice None)))"
    by simp
  have "read_first first_magic_bad ''out/chunk_1_of_2.dchunk'' = Inl (Error InvalidFormat)"
    using first_magic_bad_files(2) by (rule read_first_bad_magic)
  moreover have "''out'' \<in> set (dirs first_magic_bad)"
    by (simp add: first_magic_bad_def)
  ultimately have b: "decompress_file (reference_platform 1) first_magic_bad ''out'' ''restored.bin''
       = (first_magic_bad, Some (Error InvalidFormat))"
    by (simp add: decompress_file_def first_magic_bad_files(1))
  show ?thesis
    using second_magic_bad_files(3) magic_bad_magic a b by simp
qed

subsection \<open>Claim C1: the round trip\<close>

text \<open>
  C1 says that \<open>decompress_file\<close> after \<open>compress_file\<close> reproduces the input for any number
  of chunks. With ten chunks it does not: the file \<open>chunk_10_of_10.dchunk\<close> sorts before
  \<open>chunk_1_of_10.dchunk\<close>, the task of index 0 takes the expected length and the checksum
  from the header of \<open>chunk_10_of_10.dchunk\<close> and compares them with the bytes of chunk 0.
  For the ten bytes \<open>0, \<dots>, 9\<close> cut at one byte, \<open>compress_file\<close> writes the ten records
  (and ends in the second destruction of its pool) and \<open>decompress_file\<close> ends in "CRC32
  checksum mismatch for chunk 0" with no output file.
\<close>

theorem ten_chunk_round_trip_fails:
  "compress_file (reference_platform 1) 1 ten_input ''a.bin'' ''out''
     = (ten_chunks, Some (Undefined (PoolDestroyedTwice None)))
   \<and> decompress_file (reference_platform 1) ten_chunks ''out'' ''restored.bin''
       = (ten_chunks, Some (Terminated (CrcMismatch 0)))
   \<and> open_file ten_chunks ''restored.bin'' = None"
proof -
  have "''restored.bin'' \<notin> set (map fst (files ten_chunks))"
    by (simp add: ten_chunks_files comp_def ten_names)
  then have "open_file ten_chunks ''restored.bin'' = None"
    by (simp add: open_file_def map_of_eq_None_iff)
  with ten_chunks_files(1) ten_chunks_fail [of "''restored.bin''"] show ?thesis
    by (intro conjI)
qed

subsection \<open>Claim C2: the order of the directory listing\<close>

text \<open>
  C2 says that a complete chunk set is reassembled whatever the order of the directory
  listing, ten or more chunks included. The outcome does not depend on the listing order
  (the paths are sorted), but the sorted position of a file is taken for its chunk index
  when the task reads the header: the complete set of ten chunks fails in every listing
  order.
\<close>

theorem ten_chunks_fail_in_every_listing_order:
  assumes "dirs fs = dirs ten_chunks" and "distinct (map fst (files fs))"
    and "set (files fs) = set (files ten_chunks)"
  shows "snd (decompress_file (reference_platform 1) fs ''out'' output_path)
           = Some (Terminated (CrcMismatch 0))"
proof -
  have "distinct (map fst (files ten_chunks))"
    by (simp add: ten_chunks_files comp_def ten_names)
  from decompress_status_listing_order [OF this assms(2,3,1)]
  have "snd (decompress_file (reference_platform 1) fs ''out'' output_path)
          = snd (decompress_file (reference_platform 1) ten_chunks ''out'' output_path)" .
  then show ?thesis
    by (simp only: ten_chunks_fail snd_conv)
qed

theorem ten_chunks_fail_in_every_listing_order_witness:
  "dirs ten_chunks_reversed = dirs ten_chunks
   \<and> distinct (map fst (files ten_chunks_reversed))
   \<and> set (files ten_chunks_reversed) = set (files ten_chunks)
   \<and> snd (decompress_file (reference_platform 1) ten_chunks_reversed ''out'' ''restored.bin'')
       = Some (Terminated (CrcMismatch 0))"
proof -
  have "distinct (map fst (files ten_chunks))"
    by (simp add: ten_chunks_files comp_def ten_names)
  then have 2: "distinct (map fst (files ten_chunks_reversed))"
    by (simp add: ten_chunks_reversed_def rev_map [symmetric])
  have 1: "dirs ten_chunks_reversed = dirs ten_chunks"
    and 3: "set (files ten_chunks_reversed) = set (files ten_chunks)"
    by (simp_all add: ten_chunks_reversed_def)
  from 1 2 3 ten_chunks_fail_in_every_listing_order [OF 1 2 3, of "''restored.bin''"]
  show ?thesis
    by (intro conjI)
qed

subsection \<open>Claim C3: the checksum a chunk is compared with\<close>

text \<open>
  C3 says that the checksum stored in a record is the CRC-32 of its uncompressed bytes, and
  that during decompression the CRC-32 of the decompressed bytes is compared with the
  stored checksum, a mismatch naming the offending chunk. The first half holds (claim C8
  gives the field). In the set of ten chunks the record of index 0 is intact: its payload
  decompresses to one byte whose CRC-32 is the checksum of its own header. The task of
  index 0 compares that CRC-32 with the checksum stored in another record, the one at
  sorted position 0, and reports a mismatch for chunk 0.
\<close>

theorem intact_chunk_reported_as_mismatch:
  "open_file ten_chunks ''out/chunk_1_of_10.dchunk''
     = Some (chunk_record (ten_metadata 0) ''a.bin'' [0x78, 0x9C, 0])
   \<and> chunk_index (ten_metadata 0) = 0
   \<and> decompress_data (reference_platform 1) [0x78, 0x9C, 0]
        (unat (uncompressed_chunk_size (ten_metadata 0))) = Inr [0]
   \<and> calculate_crc32 (reference_platform 1) [0] = crc32_checksum (ten_metadata 0)
   \<and> discover ten_chunks ''out'' ! 0 = ''out/chunk_10_of_10.dchunk''
   \<and> calculate_crc32 (reference_platform 1) [0] \<noteq> crc32_checksum (ten_metadata 9)
   \<and> snd (decompress_file (reference_platform 1) ten_chunks ''out'' ''restored.bin'')
       = Some (Terminated (CrcMismatch 0))"
proof -
  have "chunk_filename ''out'' 0 10 = ''out/chunk_1_of_10.dchunk''"
    by (simp add: chunk_filename_def size_add_def to_string.simps digit_def)
  with open_ten_chunks [of 0]
  have 1: "open_file ten_chunks ''out/chunk_1_of_10.dchunk''
     = Some (chunk_record (ten_metadata 0) ''a.bin'' [0x78, 0x9C, 0])"
    by simp
  have 2: "chunk_index (ten_metadata 0) = 0"
    by (simp add: ten_metadata_fields)
  have 3: "decompress_data (reference_platform 1) [0x78, 0x9C, 0]
        (unat (uncompressed_chunk_size (ten_metadata 0))) = Inr [0]"
    by (simp add: decompress_data_def reference_platform_def ten_metadata_fields)
  have 4: "calculate_crc32 (reference_platform 1) [0] = crc32_checksum (ten_metadata 0)"
    by (simp add: calculate_crc32_def reference_platform_def ten_metadata_fields)
  have 5: "discover ten_chunks ''out'' ! 0 = ''out/chunk_10_of_10.dchunk''"
    by (simp add: discover_ten_chunks)
  have 6: "calculate_crc32 (reference_platform 1) [0] \<noteq> crc32_checksum (ten_metadata 9)"
    using crc32_0_9 by (simp add: calculate_crc32_def reference_platform_def ten_metadata_fields)
  have 7: "snd (decompress_file (reference_platform 1) ten_chunks ''out'' ''restored.bin'')
       = Some (Terminated (CrcMismatch 0))"
    by (simp only: ten_chunks_fail snd_conv)
  from 1 2 3 4 5 6 7 show ?thesis
    by (intro conjI)
qed

subsection \<open>Fewer than ten chunks\<close>

text \<open>
  With at most nine chunks the names \<open>chunk_1_of_n\<close>, \<dots>, \<open>chunk_n_of_n\<close> are sorted in the
  order of their indices, the task of index \<open>i\<close> reads the header of chunk \<open>i\<close>, and the round
  trip puts the input back on disk; both calls end in the second destruction of their pool.
\<close>

lemma append_less_append: "(xs @ ys < xs @ zs) = (ys < (zs :: 'a::linorder list))"
  by (induction xs) simp_all

lemma digit_less: "a < b \<Longrightarrow> b < 10 \<Longrightarrow> digit a < digit b"
  by (simp add: less_char_def of_char_digit)

lemma slash_not_digit: "CHR ''/'' \<notin> set (to_string n)" "CHR ''.'' \<notin> set (to_string n)"
  using to_string_digits [of n] by auto

lemma chunk_filename_parts:
  "chunk_filename d i n = d @ ''/'' @ chunk_basename i n @ ''.dchunk''"
  by (simp add: chunk_filename_def chunk_basename_def)

lemma chunk_basename_chars:
  "CHR ''/'' \<notin> set (chunk_basename i n)" "CHR ''.'' \<notin> set (chunk_basename i n)"
  "chunk_basename i n \<noteq> []"
  by (simp_all add: chunk_basename_def slash_not_digit)

lemma path_filename_in_dir:
  "CHR ''/'' \<notin> set name \<Longrightarrow> path_filename (d @ ''/'' @ name) = name"
proof -
  assume "CHR ''/'' \<notin> set name"
  then have "takeWhile (\<lambda>c. c \<noteq> CHR ''/'') (rev name @ CHR ''/'' # rev d)
               = rev name @ takeWhile (\<lambda>c. c \<noteq> CHR ''/'') (CHR ''/'' # rev d)"
    by (intro takeWhile_append2) auto
  then have "takeWhile (\<lambda>c. c \<noteq> CHR ''/'') (rev name @ CHR ''/'' # rev d) = rev name"
    by simp
  then show ?thesis
    by (simp add: path_filename_def)
qed

lemma in_directory_chunk_filename: "in_directory d (chunk_filename d i n)"
  by (simp add: in_directory_def chunk_filename_parts chunk_basename_chars)

lemma path_extension_chunk_filename: "path_extension (chunk_filename d i n) = ''.dchunk''"
proof -
  define b where "b = chunk_basename i n"
  have b: "CHR ''/'' \<notin> set b" "CHR ''.'' \<notin> set b" "b \<noteq> []"
    by (simp_all add: b_def chunk_basename_chars)
  then have f: "path_filename (chunk_filename d i n) = b @ ''.dchunk''"
    using path_filename_in_dir [of "b @ ''.dchunk''" d] by (simp add: chunk_filename_parts b_def)
  have "takeWhile (\<lambda>c. c \<noteq> CHR ''.'') (rev ''dchunk'' @ CHR ''.'' # rev b)
          = rev ''dchunk'' @ takeWhile (\<lambda>c. c \<noteq> CHR ''.'') (CHR ''.'' # rev b)"
    by (intro takeWhile_append2) auto
  then have e: "rev (takeWhile (\<lambda>c. c \<noteq> CHR ''.'') (rev (b @ ''.dchunk''))) = ''dchunk''"
    by simp
  have "b @ ''.dchunk'' \<noteq> ''.''" "b @ ''.dchunk'' \<noteq> ''..''"
    using b(3) by (cases b; simp)+
  moreover have "Suc (length ''dchunk'') \<noteq> length (b @ ''.dchunk'')"
    using b(3) by (cases b) simp_all
  ultimately show ?thesis
    unfolding path_extension_def f Let_def e by simp
qed

lemma chunk_filename_less:
  assumes "i < j" and "j < 9"
  shows "chunk_filename d i n < chunk_filename d j n"
proof -
  have i: "to_string (size_add i (Suc 0)) = [digit (Suc i)]"
    and j: "to_string (size_add j (Suc 0)) = [digit (Suc j)]"
    using assms by (simp_all add: size_add_def to_string.simps)
  have "digit (Suc i) < digit (Suc j)"
    using assms by (intro digit_less) simp_all
  then show ?thesis
    by (simp add: chunk_filename_def i j append_less_append)
qed

lemma sorted_chunk_filenames:
  assumes "n \<le> 9"
  shows "sorted (map (\<lambda>i. chunk_filename d i m) [0..<n])"
proof -
  have "chunk_filename d i m \<le> chunk_filename d j m" if "i \<le> j" "j < n" for i j
  proof (cases "i = j")
    case False
    with that assms have "chunk_filename d i m < chunk_filename d j m"
      by (intro chunk_filename_less) simp_all
    then show ?thesis by simp
  qed simp
  then show ?thesis
    by (simp add: sorted_iff_nth_mono)
qed

text \<open>
  A chunk set: \<open>n\<close> files, the one named \<open>name i\<close> holding the record of index \<open>i\<close> with a
  valid tag and lengths that fit. Its listed files load into the slots of their indices.
\<close>

lemma chunk_set_well_formed:
  assumes "chunk_set fs n name md fn z" and "i < n"
  shows "well_formed fs n (name i)"
  using assms
  by (simp add: chunk_set_def well_formed_def decode_chunk_record length_chunk_record)

lemma chunk_set_place:
  assumes "chunk_set fs n name md fn z" and "i < n"
  shows "place fs chunks (name i) = chunks[i := (chunks ! i)\<lparr>index := i, compressed_data := z i\<rparr>]"
proof -
  have m: "length (magic (md i)) = 8"
    using assms by (simp add: chunk_set_def)
  have "drop (48 + length fn) (chunk_record (md i) fn (z i)) = z i"
    using m by (rule payload_chunk_record)
  then show ?thesis
    using assms m by (simp add: place_def chunk_set_def decode_chunk_record Let_def)
qed

lemma chunk_set_loaded:
  assumes "chunk_set fs n name md fn z" and "k \<le> n"
  shows "foldl (place fs) (replicate n new_chunk) (map name [0..<k])
           = map (\<lambda>i. new_chunk\<lparr>index := i, compressed_data := z i\<rparr>) [0..<k]
             @ replicate (n - k) new_chunk"
  using assms(2)
proof (induction k)
  case 0
  then show ?case by simp
next
  case (Suc k)
  define pre where "pre = map (\<lambda>i. new_chunk\<lparr>index := i, compressed_data := z i\<rparr>) [0..<k]"
  have l: "length pre = k"
    by (simp add: pre_def)
  have r: "replicate (n - k) new_chunk = new_chunk # replicate (n - Suc k) new_chunk"
    using Suc.prems by (cases "n - k") (simp_all add: Suc_diff_Suc)
  have "foldl (place fs) (replicate n new_chunk) (map name [0..<Suc k])
          = place fs (pre @ new_chunk # replicate (n - Suc k) new_chunk) (name k)"
    using Suc by (simp add: pre_def r)
  also have "\<dots> = (pre @ new_chunk # replicate (n - Suc k) new_chunk)
                      [k := ((pre @ new_chunk # replicate (n - Suc k) new_chunk) ! k)
                               \<lparr>index := k, compressed_data := z k\<rparr>]"
    using Suc.prems by (intro chunk_set_place [OF assms(1)]) simp
  also have "\<dots> = pre @ new_chunk\<lparr>index := k, compressed_data := z k\<rparr> # replicate (n - Suc k) new_chunk"
    by (simp add: l [symmetric] nth_append list_update_append)
  finally show ?case
    by (simp add: pre_def)
qed

lemma chunk_set_verified:
  assumes "chunk_set fs n name md fn z"
    and "\<forall>i<n. zlib_inflate P (z i) = Some (d i)
              \<and> length (d i) \<le> unat (uncompressed_chunk_size (md i))
              \<and> zlib_crc32 P (d i) = crc32_checksum (md i)"
    and "k \<le> n"
  shows "run_tasks (map (decompress_task P fs (map name [0..<n])) [k..<n])
           (map (\<lambda>i. new_chunk\<lparr>index := i, compressed_data := z i, data := d i, processed := True\<rparr>) [0..<k]
            @ map (\<lambda>i. new_chunk\<lparr>index := i, compressed_data := z i\<rparr>) [k..<n])
         = Inr (map (\<lambda>i. new_chunk\<lparr>index := i, compressed_data := z i, data := d i, processed := True\<rparr>) [0..<n])"
  using assms(3)
proof (induction "n - k" arbitrary: k)
  case 0
  then show ?case by simp
next
  case (Suc m)
  then have k: "k < n" by simp
  define pre where
    "pre = map (\<lambda>i. new_chunk\<lparr>index := i, compressed_data := z i, data := d i, processed := True\<rparr>) [0..<k]"
  define todo where "todo = map (\<lambda>i. new_chunk\<lparr>index := i, compressed_data := z i\<rparr>) [Suc k..<n]"
  define st where "st = pre @ new_chunk\<lparr>index := k, compressed_data := z k\<rparr> # todo"
  have l: "length pre = k"
    by (simp add: pre_def)
  have u: "[k..<n] = k # [Suc k..<n]"
    using k by (simp add: upt_rec)
  have stk: "st ! k = new_chunk\<lparr>index := k, compressed_data := z k\<rparr>" and kl: "k < length st"
    by (simp_all add: st_def l [symmetric] nth_append)
  have "length (magic (md k)) = 8"
    using assms(1) k by (simp add: chunk_set_def)
  then have "verify_chunk P (chunk_record (md k) fn (z k), True) k st
      = (if zlib_crc32 P (d k) \<noteq> crc32_checksum (md k) then Inl (Error (CrcMismatch k))
         else Inr (st[k := (st ! k)\<lparr>data := d k, processed := True\<rparr>]))"
    using kl assms(2) k by (intro verify_record) (simp_all add: stk)
  then have t: "decompress_task P fs (map name [0..<n]) k st
      = Inr (st[k := (st ! k)\<lparr>data := d k, processed := True\<rparr>])"
    using assms(1,2) k by (simp add: decompress_task_def ifstream_def chunk_set_def)
  have "st[k := (st ! k)\<lparr>data := d k, processed := True\<rparr>]
      = (pre @ [new_chunk\<lparr>index := k, compressed_data := z k, data := d k, processed := True\<rparr>]) @ todo"
    by (simp add: st_def l [symmetric] nth_append list_update_append)
  also have "\<dots> = map (\<lambda>i. new_chunk\<lparr>index := i, compressed_data := z i, data := d i, processed := True\<rparr>) [0..<Suc k]
                   @ map (\<lambda>i. new_chunk\<lparr>index := i, compressed_data := z i\<rparr>) [Suc k..<n]"
    by (simp add: pre_def todo_def)
  finally have st': "st[k := (st ! k)\<lparr>data := d k, processed := True\<rparr>]
      = map (\<lambda>i. new_chunk\<lparr>index := i, compressed_data := z i, data := d i, processed := True\<rparr>) [0..<Suc k]
        @ map (\<lambda>i. new_chunk\<lparr>index := i, compressed_data := z i\<rparr>) [Suc k..<n]" .
  have IH: "run_tasks (map (decompress_task P fs (map name [0..<n])) [Suc k..<n])
           (map (\<lambda>i. new_chunk\<lparr>index := i, compressed_data := z i, data := d i, processed := True\<rparr>) [0..<Suc k]
            @ map (\<lambda>i. new_chunk\<lparr>index := i, compressed_data := z i\<rparr>) [Suc k..<n])
         = Inr (map (\<lambda>i. new_chunk\<lparr>index := i, compressed_data := z i, data := d i, processed := True\<rparr>) [0..<n])"
    using Suc.hyps(2) k by (intro Suc.hyps(1)) auto
  have "map (\<lambda>i. new_chunk\<lparr>index := i, compressed_data := z i, data := d i, processed := True\<rparr>) [0..<k]
            @ map (\<lambda>i. new_chunk\<lparr>index := i, compressed_data := z i\<rparr>) [k..<n] = st"
    by (simp add: st_def pre_def todo_def u)
  then show ?case
    using t IH by (simp add: u st')
qed

text \<open>
  When the sorted listing of the directory is a chunk set in the order of its indices and
  every payload decompresses to bytes that fit the length and the checksum of its own
  header, \<open>decompress_file\<close> writes the chunks' bytes in order.
\<close>

lemma decompress_in_order:
  assumes cs: "chunk_set fs n name md fn z" and n: "0 < n"
    and dir: "chunks_dir \<in> set (dirs fs)"
    and disc: "discover fs chunks_dir = map name [0..<n]"
    and hw: "0 < hardware_concurrency P"
    and codec: "\<forall>i<n. zlib_inflate P (z i) = Some (d i)
              \<and> length (d i) \<le> unat (uncompressed_chunk_size (md i))
              \<and> zlib_crc32 P (d i) = crc32_checksum (md i)"
    and cc: "can_create P (if output_path = [] then fn else output_path)"
  shows "decompress_file P fs chunks_dir output_path
           = (write_file fs (if output_path = [] then fn else output_path, concat (map d [0..<n])),
              Some (Undefined (PoolDestroyedTwice None)))"
proof -
  define chunks where
    "chunks = map (\<lambda>i. new_chunk\<lparr>index := i, compressed_data := z i, data := d i, processed := True\<rparr>) [0..<n]"
  define loaded where
    "loaded = map (\<lambda>i. new_chunk\<lparr>index := i, compressed_data := z i\<rparr>) [0..<n]"
  have u: "[0..<n] = 0 # [1..<n]"
    using n by (simp add: upt_rec)
  have d0: "discover fs chunks_dir = name 0 # map name [1..<n]"
    unfolding disc by (subst u) simp
  have t: "unat (total_chunks (md 0)) = n"
    using cs n by (simp add: chunk_set_def)
  have r: "read_first fs (name 0) = Inr (md 0, fn)"
    using cs n by (intro read_first_record [where z = "z 0"]) (simp_all add: chunk_set_def)
  have all: "name 0 # map name [1..<n] = map name [0..<n]"
    by (subst u) simp
  have "load_chunks fs (map name [0..<n]) (replicate n new_chunk)
          = Inr (foldl (place fs) (replicate n new_chunk) (map name [0..<n]))"
    using cs by (intro load_chunks_well_formed) (auto intro: chunk_set_well_formed)
  also have "foldl (place fs) (replicate n new_chunk) (map name [0..<n]) = loaded"
    using chunk_set_loaded [OF cs, of n] by (simp add: loaded_def)
  finally have l: "load_chunks fs (take (unat (total_chunks (md 0))) (name 0 # map name [1..<n]))
           (replicate (unat (total_chunks (md 0))) new_chunk) = Inr loaded"
    unfolding t all by simp
  have "run_tasks (map (decompress_task P fs (map name [0..<n])) [0..<n]) loaded = Inr chunks"
    using chunk_set_verified [OF cs codec, of 0] by (simp add: loaded_def chunks_def)
  with hw have "run_pool P (map (decompress_task P fs (map name [0..<n])) [0..<n]) loaded = Inr chunks"
    by (rule run_pool_Inr)
  then have p: "run_pool P (decompress_tasks P fs (name 0 # map name [1..<n]) (unat (total_chunks (md 0)))) loaded
           = Inr chunks"
    unfolding t all by (simp add: decompress_tasks_def)
  have pr: "\<forall>c \<in> set chunks. processed c"
    by (auto simp: chunks_def)
  have "decompress_file P fs chunks_dir output_path
           = (write_file fs (if output_path = [] then fn else output_path, concat (map data chunks)),
              Some (Undefined (PoolDestroyedTwice None)))"
    using dir d0 r l p pr cc by (rule decompress_file_pool_done)
  moreover have "map data chunks = map d [0..<n]"
    by (simp add: chunks_def comp_def)
  ultimately show ?thesis
    by simp
qed

text \<open>
  The records that \<open>compress_file\<close> writes into a directory that held no chunk file are
  such a chunk set when there are at most nine of them.
\<close>

lemma discover_fresh_directory:
  assumes "discover fs d = []" and "n \<le> 9"
    and "files fs' = files fs @ map (\<lambda>i. (chunk_filename d i m, v i)) [0..<n]"
  shows "discover fs' d = map (\<lambda>i. chunk_filename d i m) [0..<n]"
proof -
  have "length (filter (\<lambda>p. path_extension p = ''.dchunk'') (directory_iterator fs d)) = 0"
    using assms(1) unfolding discover_def by (metis length_sort list.size(3))
  then have e: "filter (\<lambda>p. path_extension p = ''.dchunk'') (filter (in_directory d) (map fst (files fs))) = []"
    by (auto simp: directory_iterator_def filter_empty_conv)
  have k: "filter (\<lambda>p. path_extension p = ''.dchunk'')
             (filter (in_directory d) (map (\<lambda>i. chunk_filename d i m) [0..<n]))
           = map (\<lambda>i. chunk_filename d i m) [0..<n]"
    by (simp add: filter_map comp_def in_directory_chunk_filename path_extension_chunk_filename)
  have "discover fs' d = sort (map (\<lambda>i. chunk_filename d i m) [0..<n])"
    unfolding discover_def directory_iterator_def assms(3)
    using e k by (simp add: comp_def)
  also have "\<dots> = map (\<lambda>i. chunk_filename d i m) [0..<n]"
    using assms(2) by (intro sorted_sort_id sorted_chunk_filenames)
  finally show ?thesis .
qed

lemma chunk_filename_fresh:
  assumes "discover fs d = []"
  shows "chunk_filename d i m \<notin> set (map fst (files fs))"
proof
  assume "chunk_filename d i m \<in> set (map fst (files fs))"
  then have "chunk_filename d i m \<in> set (discover fs d)"
    by (simp add: discover_def directory_iterator_def in_directory_chunk_filename
        path_extension_chunk_filename)
  then show False
    using assms by simp
qed

lemma round_trip_below_ten_chunks:
  assumes hw: "0 < hardware_concurrency P"
    and total: "\<forall>x. zlib_compress2 P x \<noteq> None"
    and inverse: "\<forall>x y. zlib_compress2 P x = Some y \<longrightarrow> zlib_inflate P y = Some x"
    and bound: "\<forall>x y. length x \<le> c \<longrightarrow> zlib_compress2 P x = Some y \<longrightarrow> length y < 2 ^ 64"
    and create: "\<forall>p. can_create P p"
    and c: "0 < c" and size: "length content + c < 2 ^ 64"
    and inp: "open_file fs input_path = Some content"
    and out: "create_directories fs output_dir = Inr fs1"
    and name: "length (path_filename input_path) < 2 ^ 32"
    and fresh: "discover fs output_dir = []"
    and nonempty: "content \<noteq> []"
    and few: "ceil_div (length content) c \<le> 9"
    and compressed: "compress_file P c fs input_path output_dir = (fs', status)"
  shows "status = Some (Undefined (PoolDestroyedTwice None)) \<and>
         decompress_file P fs' output_dir restored_path
           = (write_file fs' (if restored_path = [] then path_filename input_path else restored_path,
                              content), Some (Undefined (PoolDestroyedTwice None)))"
proof -
  define n where "n = ceil_div (length content) c"
  define fn where "fn = path_filename input_path"
  define d where "d = (\<lambda>i. take c (drop (i * c) content))"
  define z where "z = (\<lambda>i. the (zlib_compress2 P (d i)))"
  define cc where "cc = (\<lambda>i. compressed_chunk P (file_chunk c content i))"
  define md where "md = (\<lambda>i. chunk_metadata P fn (length content) n i (cc i))"
  define nm where "nm = (\<lambda>i. chunk_filename output_dir i n)"
  define recs where "recs = chunk_records P c fn output_dir content"
  have dcc: "data (cc i) = d i" and zcc: "compressed_data (cc i) = z i" for i
    by (simp_all add: cc_def compressed_chunk_def file_chunk_def d_def z_def)
  have recs: "recs = map (\<lambda>i. (nm i, chunk_record (md i) fn (z i))) [0..<n]"
    by (simp add: recs_def chunk_records_def record_of_def n_def md_def nm_def zcc [symmetric] cc_def)
  have "compress_file P c fs input_path output_dir
          = (write_files fs1 recs, Some (Undefined (PoolDestroyedTwice None)))"
    unfolding recs_def fn_def using hw total create c size inp out by (rule compress_file_good)
  then have fs': "fs' = write_files fs1 recs"
    and status: "status = Some (Undefined (PoolDestroyedTwice None))"
    using compressed by simp_all
  have n: "0 < n"
    using nonempty ceil_div_le_iff [OF c, of "length content" 0] by (simp add: n_def)
  have n9: "n \<le> 9"
    using few by (simp add: n_def)
  have dist: "distinct (map fst recs)"
    unfolding recs_def using c size by (intro distinct_chunk_records) simp_all
  have f1: "files fs1 = files fs"
    using out by (rule create_directories_files)
  have "set (map fst recs) \<inter> set (map fst (files fs1)) = {}"
    using chunk_filename_fresh [OF fresh] by (auto simp: recs f1 nm_def)
  then have "files fs' = files fs1 @ recs"
    unfolding fs' using dist by (intro write_files_fresh)
  then have files: "files fs' = files fs @ map (\<lambda>i. (chunk_filename output_dir i n, chunk_record (md i) fn (z i))) [0..<n]"
    by (simp add: f1 recs nm_def)
  have disc: "discover fs' output_dir = map nm [0..<n]"
    unfolding nm_def using fresh n9 files by (rule discover_fresh_directory)
  have dir: "output_dir \<in> set (dirs fs')"
    unfolding fs' using create_directories_dirs [OF out] by simp
  have ld: "length (d i) \<le> c" for i
    by (simp add: d_def)
  have zd: "zlib_compress2 P (d i) = Some (z i)" for i
  proof -
    have "zlib_compress2 P (d i) \<noteq> None"
      using total by (rule spec)
    then show ?thesis
      by (auto simp: z_def)
  qed
  have lz: "length (z i) < 2 ^ 64" for i
    using bound ld zd by blast
  have cs: "chunk_set fs' n nm md fn z"
    unfolding chunk_set_def
  proof (intro allI impI conjI)
    fix i assume i: "i < n"
    have "(nm i, chunk_record (md i) fn (z i)) \<in> set recs"
      using i by (auto simp: recs)
    with dist show "open_file fs' (nm i) = Some (chunk_record (md i) fn (z i))"
      unfolding fs' by (rule open_file_write_files)
    show "magic (md i) = DCHUNKV1"
      by (simp add: md_def chunk_metadata_def)
    have "i < 2 ^ 32" "n < 2 ^ 32"
      using i n9 by simp_all
    then show "unat (chunk_index (md i)) = i" "unat (total_chunks (md i)) = n"
      by (simp_all add: md_def chunk_metadata_def unat_of_nat_32)
    show "unat (filename_length (md i)) = length fn"
      using name by (simp add: md_def chunk_metadata_def unat_of_nat_32 fn_def)
    show "unat (compressed_size (md i)) = length (z i)"
      using lz [of i] by (simp add: md_def chunk_metadata_def unat_of_nat_64 zcc)
  qed
  have codec: "\<forall>i<n. zlib_inflate P (z i) = Some (d i)
              \<and> length (d i) \<le> unat (uncompressed_chunk_size (md i))
              \<and> zlib_crc32 P (d i) = crc32_checksum (md i)"
  proof (intro allI impI conjI)
    fix i
    show "zlib_inflate P (z i) = Some (d i)"
      using inverse zd by blast
    have "length (d i) < 2 ^ 64"
      using ld [of i] size by simp
    then show "length (d i) \<le> unat (uncompressed_chunk_size (md i))"
      by (simp add: md_def chunk_metadata_def unat_of_nat_64 dcc)
    show "zlib_crc32 P (d i) = crc32_checksum (md i)"
      by (simp add: md_def chunk_metadata_def calculate_crc32_def dcc)
  qed
  have "can_create P (if restored_path = [] then fn else restored_path)"
    using create by simp
  with cs n dir disc hw codec
  have "decompress_file P fs' output_dir restored_path
           = (write_file fs' (if restored_path = [] then fn else restored_path, concat (map d [0..<n])),
              Some (Undefined (PoolDestroyedTwice None)))"
    by (rule decompress_in_order)
  moreover have "concat (map d [0..<n]) = content"
    unfolding d_def n_def using c by (rule concat_file_chunks)
  ultimately show ?thesis
    using status by (simp add: fn_def)
qed

text \<open>The three bytes of \<open>a.bin\<close>, cut at two bytes, come back.\<close>

lemma round_trip_small_input:
  "snd (compress_file (reference_platform 1) 2 small_input ''a.bin'' ''out'')
     = Some (Undefined (PoolDestroyedTwice None))
   \<and> decompress_file (reference_platform 1)
         (fst (compress_file (reference_platform 1) 2 small_input ''a.bin'' ''out''))
         ''out'' ''restored.bin''
       = (write_file (fst (compress_file (reference_platform 1) 2 small_input ''a.bin'' ''out''))
            (''restored.bin'', [1, 2, 3]), Some (Undefined (PoolDestroyedTwice None)))"
proof -
  have hw: "0 < hardware_concurrency (reference_platform 1)"
    by (simp add: reference_platform_def)
  have total: "\<forall>x. zlib_compress2 (reference_platform 1) x \<noteq> None"
    by (simp add: reference_platform_def stored_compress_def)
  have inverse: "\<forall>x y. zlib_compress2 (reference_platform 1) x = Some y
                   \<longrightarrow> zlib_inflate (reference_platform 1) y = Some x"
    by (auto simp: reference_platform_def stored_compress_def)
  have bound: "\<forall>x y. length x \<le> 2 \<longrightarrow> zlib_compress2 (reference_platform 1) x = Some y
                   \<longrightarrow> length y < 2 ^ 64"
    by (auto simp: reference_platform_def stored_compress_def)
  have create: "\<forall>p. can_create (reference_platform 1) p"
    by (simp add: reference_platform_def)
  have size: "length [1, 2, 3 :: byte] + 2 < 2 ^ 64"
    by simp
  have inp: "open_file small_input ''a.bin'' = Some [1, 2, 3]"
    by (simp add: open_file_def small_input_def)
  have out: "create_directories small_input ''out'' = Inr (small_input\<lparr>dirs := [''out'']\<rparr>)"
    by (simp add: create_directories_def small_input_def)
  have name: "length (path_filename ''a.bin'') < 2 ^ 32"
    by (simp add: path_filename_def)
  have fresh: "discover small_input ''out'' = []"
    by (simp add: discover_def directory_iterator_def in_directory_def small_input_def)
  have few: "ceil_div (length [1, 2, 3 :: byte]) 2 \<le> 9"
    by (simp add: ceil_div_def)
  have "path_filename ''a.bin'' = ''a.bin''"
    by (simp add: path_filename_def)
  with round_trip_below_ten_chunks [OF hw total inverse bound create _ size inp out name fresh _ few
      prod.collapse [symmetric], of "''restored.bin''"]
  show ?thesis
    by simp
qed

subsection \<open>The ten chunks on a pool of several workers\<close>

text \<open>
  Every task of the set of ten chunks fails: the task of index \<open>i\<close> compares chunk \<open>i\<close> with
  the header at sorted position \<open>i\<close>, which is the header of another chunk. With \<open>k\<close> workers the
  process ends with the mismatch of one of the first \<open>k\<close> tasks, the one the scheduler lets
  throw first; no output file is written.
\<close>

lemma crc32_neighbours:
  "crc32 [1] \<noteq> crc32 [0]" "crc32 [2] \<noteq> crc32 [1]" "crc32 [3] \<noteq> crc32 [2]"
  "crc32 [4] \<noteq> crc32 [3]" "crc32 [5] \<noteq> crc32 [4]" "crc32 [6] \<noteq> crc32 [5]"
  "crc32 [7] \<noteq> crc32 [6]" "crc32 [8] \<noteq> crc32 [7]" "crc32 [9] \<noteq> crc32 [8]"
  by code_simp+

lemma ten_loaded_nth:
  "i < 10 \<Longrightarrow> ten_loaded ! i = new_chunk\<lparr>index := i, compressed_data := [0x78, 0x9C, of_nat i]\<rparr>"
  using digit_cases [of i]
  by (auto simp: ten_loaded_def discover_ten_chunks_indices place_ten_chunks)

lemma thrown_all_fail:
  assumes "\<forall>t \<in> set tasks. \<exists>e. t st = Inl e" and "0 < k"
  shows "thrown k tasks st = (take k (map (\<lambda>t. projl (t st)) tasks), st)"
  using assms
proof (induction tasks arbitrary: k)
  case Nil
  then show ?case by simp
next
  case (Cons t ts)
  from Cons.prems(1) obtain e where e: "t st = Inl e"
    by auto
  show ?case
  proof (cases "k \<le> 1")
    case True
    with Cons.prems(2) have "k = Suc 0" by simp
    then show ?thesis
      using e by simp
  next
    case False
    then have "thrown (k - 1) ts st = (take (k - 1) (map (\<lambda>t. projl (t st)) ts), st)"
      using Cons.prems(1) by (intro Cons.IH) auto
    then show ?thesis
      using e False by (cases k) (simp_all add: Let_def)
  qed
qed

lemma run_pool_all_fail:
  assumes "\<forall>t \<in> set tasks. \<exists>e. t st = Inl e" and "0 < hardware_concurrency P" and "tasks \<noteq> []"
  shows "run_pool P tasks st
           = Inl (thread_exit (projl ((tasks ! (first_thrower P (min (hardware_concurrency P) (length tasks))
                                                 mod min (hardware_concurrency P) (length tasks))) st)))"
proof -
  define es where "es = take (hardware_concurrency P) (map (\<lambda>t. projl (t st)) tasks)"
  define q where "q = first_thrower P (length es) mod length es"
  have th: "thrown (hardware_concurrency P) tasks st = (es, st)"
    unfolding es_def using assms(1,2) by (rule thrown_all_fail)
  have len: "length es = min (hardware_concurrency P) (length tasks)"
    by (simp add: es_def min.commute)
  then have pos: "0 < length es"
    using assms(2,3) by simp
  then obtain e es' where c: "es = e # es'"
    by (cases es) auto
  have "q < length es"
    unfolding q_def using pos by simp
  then have "es ! q = projl ((tasks ! q) st)"
    by (simp add: es_def)
  moreover have "run_pool P tasks st = Inl (thread_exit (es ! q))"
    using assms(2) th by (simp add: run_pool_def c q_def)
  ultimately show ?thesis
    by (simp add: q_def len)
qed

lemma ten_chunks_task:
  assumes "i < 10"
  shows "decompress_task (scheduled_platform k f) ten_chunks (discover ten_chunks ''out'') i ten_loaded
           = Inl (Error (CrcMismatch i))"
proof -
  define j :: nat where "j = (if i = 0 then 9 else i - 1)"
  have jn: "j < 10"
    using assms by (auto simp: j_def)
  have pos: "discover ten_chunks ''out'' ! i = chunk_filename ''out'' j 10"
    using digit_cases [of i] assms by (auto simp: discover_ten_chunks_indices j_def)
  have crc: "crc32 [of_nat i] \<noteq> crc32 [of_nat j]"
    using digit_cases [of i] assms crc32_neighbours crc32_0_9 by (auto simp: j_def)
  have "verify_chunk (scheduled_platform k f)
          (chunk_record (ten_metadata j) ''a.bin'' [0x78, 0x9C, of_nat j], True) i ten_loaded
        = (if zlib_crc32 (scheduled_platform k f) [of_nat i] \<noteq> crc32_checksum (ten_metadata j)
           then Inl (Error (CrcMismatch i))
           else Inr (ten_loaded[i := (ten_loaded ! i)\<lparr>data := [of_nat i], processed := True\<rparr>]))"
    using assms jn
    by (intro verify_record)
      (simp_all add: ten_metadata_fields ten_chunks_loaded ten_loaded_nth scheduled_platform_def
        reference_platform_def)
  moreover have "length (discover ten_chunks ''out'') = 10"
    by (simp add: discover_ten_chunks_indices)
  ultimately show ?thesis
    using crc open_ten_chunks [OF jn] assms
    by (simp add: decompress_task_def ifstream_def pos ten_metadata_fields jn scheduled_platform_def reference_platform_def)
qed

lemma ten_chunks_fail_with_any_pool:
  assumes "0 < k"
  shows "decompress_file (scheduled_platform k f) ten_chunks ''out'' output_path
           = (ten_chunks, Some (Terminated (CrcMismatch (f (min k 10) mod min k 10))))"
proof -
  define P where "P = scheduled_platform k f"
  define q where "q = f (min k 10) mod min k 10"
  have q: "q < 10"
    unfolding q_def using assms by (simp add: mod_less_divisor [THEN less_le_trans])
  have hw: "hardware_concurrency P = k" and ft: "first_thrower P = f"
    by (simp_all add: P_def scheduled_platform_def reference_platform_def)
  have m: "unat (total_chunks (ten_metadata 9)) = 10"
    by (simp add: ten_metadata_fields)
  have d: "discover ten_chunks ''out''
      = chunk_filename ''out'' 9 10 # map (\<lambda>i. chunk_filename ''out'' i 10) [0, 1, 2, 3, 4, 5, 6, 7, 8]"
    by (simp add: discover_ten_chunks_indices)
  have r: "read_first ten_chunks (chunk_filename ''out'' 9 10) = Inr (ten_metadata 9, ''a.bin'')"
    using open_ten_chunks [of 9]
    by (intro read_first_record) (simp_all add: ten_metadata_fields)
  have l: "load_chunks ten_chunks
             (take (unat (total_chunks (ten_metadata 9)))
                (chunk_filename ''out'' 9 10
                 # map (\<lambda>i. chunk_filename ''out'' i 10) [0, 1, 2, 3, 4, 5, 6, 7, 8]))
             (replicate (unat (total_chunks (ten_metadata 9))) new_chunk)
           = Inr ten_loaded"
    unfolding m d [symmetric] by (rule ten_chunks_loaded(1))
  have all: "\<forall>t \<in> set (decompress_tasks P ten_chunks (discover ten_chunks ''out'') 10).
               \<exists>e. t ten_loaded = Inl e"
    by (auto simp: decompress_tasks_def P_def ten_chunks_task)
  have "run_pool P (decompress_tasks P ten_chunks (discover ten_chunks ''out'') 10) ten_loaded
          = Inl (thread_exit (projl ((decompress_tasks P ten_chunks (discover ten_chunks ''out'') 10 ! q)
                                        ten_loaded)))"
    using run_pool_all_fail [OF all] assms
    by (simp add: hw ft q_def decompress_tasks_def)
  also have "(decompress_tasks P ten_chunks (discover ten_chunks ''out'') 10 ! q) ten_loaded
          = Inl (Error (CrcMismatch q))"
    using q by (simp add: decompress_tasks_def P_def ten_chunks_task)
  finally have p: "run_pool P
             (decompress_tasks P ten_chunks
                (chunk_filename ''out'' 9 10
                 # map (\<lambda>i. chunk_filename ''out'' i 10) [0, 1, 2, 3, 4, 5, 6, 7, 8])
                (unat (total_chunks (ten_metadata 9))))
             ten_loaded
           = Inl (Terminated (CrcMismatch q))"
    unfolding m d [symmetric] by simp
  have "''out'' \<in> set (dirs ten_chunks)"
    by (simp add: ten_chunks_files)
  then have "decompress_file P ten_chunks ''out'' output_path
           = (ten_chunks, Some (Terminated (CrcMismatch q)))"
    using d r l p by (rule decompress_file_pool_error)
  then show ?thesis
    by (simp add: P_def q_def)
qed

lemma ten_chunks_fail_with_four_workers:
  "decompress_file (scheduled_platform 4 (\<lambda>n. 2)) ten_chunks ''out'' output_path
     = (ten_chunks, Some (Terminated (CrcMismatch 2)))"
  using ten_chunks_fail_with_any_pool [of 4 "\<lambda>n. 2" output_path] by simp

end
